theory Spec2Isabelle
  imports Main "HOL-Library.Multiset"
begin

section \<open>Python string primitives\<close>

text \<open>
  Text is a list of ASCII characters. \<open>str.isspace\<close>, and with it \<open>str.split()\<close> and
  the regular-expression class \<open>\s\<close>, accept the six usual blanks and the four
  separators \<open>0x1C\<close> to \<open>0x1F\<close>; \<open>\w\<close> accepts letters, digits and the underscore.
\<close>

definition is_space :: "char \<Rightarrow> bool" where
  "is_space c \<longleftrightarrow>
     c \<in> set [CHR 0x09, CHR 0x0A, CHR 0x0B, CHR 0x0C, CHR 0x0D,
              CHR 0x1C, CHR 0x1D, CHR 0x1E, CHR 0x1F, CHR 0x20]"

definition is_word :: "char \<Rightarrow> bool" where
  "is_word c \<longleftrightarrow>
     c \<in> set (''abcdefghijklmnopqrstuvwxyz'' @ ''ABCDEFGHIJKLMNOPQRSTUVWXYZ'' @
              ''0123456789'' @ ''_'')"

text \<open>\<open>str.upper\<close> on ASCII text: the 26 lower-case letters move, all else stays.\<close>

definition upper_char :: "char \<Rightarrow> char" where
  "upper_char c =
     (case map_of (zip ''abcdefghijklmnopqrstuvwxyz'' ''ABCDEFGHIJKLMNOPQRSTUVWXYZ'') c of
        Some u \<Rightarrow> u | None \<Rightarrow> c)"

definition upper :: "string \<Rightarrow> string" where
  "upper s = map upper_char s"

text \<open>\<open>needle in haystack\<close> for strings.\<close>

fun contains :: "string \<Rightarrow> string \<Rightarrow> bool" where
  "contains needle [] = (needle = [])"
| "contains needle (c # cs) =
     (take (length needle) (c # cs) = needle \<or> contains needle cs)"

text \<open>
  \<open>s.split()\<close> with no separator: runs of whitespace separate the tokens, and no
  empty token is produced. \<open>cur\<close> is the token being read.
\<close>

fun split_from :: "string \<Rightarrow> string \<Rightarrow> string list" where
  "split_from cur [] = (if cur = [] then [] else [cur])"
| "split_from cur (c # cs) =
     (if is_space c
      then (if cur = [] then split_from [] cs else cur # split_from [] cs)
      else split_from (cur @ [c]) cs)"

definition split :: "string \<Rightarrow> string list" where
  "split s = split_from [] s"

text \<open>\<open>s.strip(chars)\<close>: drops every leading and trailing character that is in \<open>chars\<close>.\<close>

definition strip :: "string \<Rightarrow> string \<Rightarrow> string" where
  "strip chars s =
     rev (dropWhile (\<lambda>c. c \<in> set chars) (rev (dropWhile (\<lambda>c. c \<in> set chars) s)))"

text \<open>\<open>sep.join(xs)\<close>.\<close>

fun join :: "string \<Rightarrow> string list \<Rightarrow> string" where
  "join sep [] = []"
| "join sep [x] = x"
| "join sep (x # y # ys) = x @ sep @ join sep (y # ys)"

text \<open>\<open>str(n)\<close> for an integer: decimal digits, with a minus sign below zero.\<close>

fun str_nat :: "nat \<Rightarrow> string" where
  "str_nat n =
     (if n < 10 then [''0123456789'' ! n]
      else str_nat (n div 10) @ [''0123456789'' ! (n mod 10)])"

definition str_int :: "int \<Rightarrow> string" where
  "str_int i = (if i < 0 then CHR ''-'' # str_nat (nat (- i)) else str_nat (nat i))"

section \<open>Tool arguments\<close>

text \<open>
  The head of \<open>_execute_tool\<close>: each whitespace-separated token that holds an \<open>=\<close> is cut
  at the first one (\<open>arg.split('=', 1)\<close>), both quote characters are stripped from the
  ends of the value, and the pair is stored in the dictionary, a later store replacing
  an earlier one.
\<close>

definition has_eq :: "string \<Rightarrow> bool" where
  "has_eq arg \<longleftrightarrow> CHR ''='' \<in> set arg"

definition arg_key :: "string \<Rightarrow> string" where
  "arg_key arg = takeWhile (\<lambda>c. c \<noteq> CHR ''='') arg"

definition arg_raw_value :: "string \<Rightarrow> string" where
  "arg_raw_value arg = tl (dropWhile (\<lambda>c. c \<noteq> CHR ''='') arg)"

definition quotes :: string where
  "quotes = [CHR 0x22, CHR 0x27]"

definition arg_value :: "string \<Rightarrow> string" where
  "arg_value arg = strip quotes (arg_raw_value arg)"

type_synonym tool_args = "string \<rightharpoonup> string"

fun store_args :: "tool_args \<Rightarrow> string list \<Rightarrow> tool_args" where
  "store_args args [] = args"
| "store_args args (arg # rest) =
     (if has_eq arg then store_args (args(arg_key arg \<mapsto> arg_value arg)) rest
      else store_args args rest)"

definition parse_args :: "string \<Rightarrow> tool_args" where
  "parse_args args_str =
     (if args_str \<noteq> [] then store_args Map.empty (split args_str) else Map.empty)"

text \<open>\<open>args.get(key, default)\<close>.\<close>

definition get_arg :: "tool_args \<Rightarrow> string \<Rightarrow> string \<Rightarrow> string" where
  "get_arg args k d = (case args k of Some v \<Rightarrow> v | None \<Rightarrow> d)"

section \<open>Exceptions and the operating environment\<close>

text \<open>
  An exception is its class and the text \<open>str(e)\<close>. The classes are those the handlers
  of the program tell apart: \<open>except SyntaxError\<close>, \<open>except
  requests.exceptions.RequestException\<close> and \<open>except Exception\<close>. \<open>KeyboardInterrupt\<close>
  and \<open>SystemExit\<close> derive from \<open>BaseException\<close> only, every other class from
  \<open>Exception\<close>.
\<close>

datatype exn_class =
  SyntaxError | RequestException | TimeoutExpired | OSError | UnicodeError
  | TypeError | KeyError | IndexError | ValueError | RecursionError | MarkupError
  | KeyboardInterrupt | SystemExit

datatype py_exn = PyExn (exn_class: exn_class) (exn_str: string)

definition is_Exception :: "py_exn \<Rightarrow> bool" where
  "is_Exception e \<longleftrightarrow> exn_class e \<noteq> KeyboardInterrupt \<and> exn_class e \<noteq> SystemExit"

text \<open>The syntax tree of \<open>ast.parse\<close>: a node has a class and, in field order, its child nodes.\<close>

datatype node_kind =
  FunctionDef string
  | AsyncFunctionDef string
  | ClassDef string
  | Import "string list"
  | ImportFrom "string option"
  | Other string

datatype ast = Node (kind: node_kind) (children: "ast list")

text \<open>
  JSON values as Python objects. An object is a dictionary, so its keys are distinct;
  of a float only its being zero or not is kept, which is all the program tests.
\<close>

datatype json =
  JNull | JBool bool | JInt int | JFloat (nonzero: bool) | JStr string
  | JArr "json list" | JObj "(string \<times> json) list"

record message =
  role :: string
  content :: json

record payload =
  model :: string
  messages :: "message list"
  temperature :: string
  max_tokens :: int

record response =
  status_code :: int
  json_body :: "py_exn + json"

record completed =
  returncode :: int
  stdout :: string
  stderr :: string

datatype renderable = Text string | Markdown json | Panel json

text \<open>
  What the program asks of its surroundings. Every operation takes the state \<open>'w\<close> of the
  outside world and returns the next one with either a value or the exception raised:
  \<open>read_text\<close> is \<open>open(path, 'r')\<close> followed by \<open>f.read()\<close>, \<open>write_text\<close> is
  \<open>open(path, 'w')\<close> followed by \<open>f.write(content)\<close>, \<open>run_shell c t\<close> is
  \<open>subprocess.run(c, shell=True, capture_output=True, text=True, timeout=t)\<close>, \<open>listdir\<close>
  is \<open>os.listdir\<close>, \<open>http_post\<close> is \<open>requests.post(endpoint, json=payload,
  timeout=timeout)\<close>, \<open>console_print\<close> is \<open>console.print\<close> and \<open>now_iso\<close> is
  \<open>datetime.now().isoformat()\<close>. \<open>ast_parse\<close> is \<open>ast.parse\<close>, a function of the text alone.
\<close>

record 'w os =
  read_text :: "string \<Rightarrow> 'w \<Rightarrow> (py_exn + string) \<times> 'w"
  write_text :: "string \<Rightarrow> string \<Rightarrow> 'w \<Rightarrow> (py_exn + unit) \<times> 'w"
  run_shell :: "string \<Rightarrow> nat \<Rightarrow> 'w \<Rightarrow> (py_exn + completed) \<times> 'w"
  listdir :: "string \<Rightarrow> 'w \<Rightarrow> (py_exn + string list) \<times> 'w"
  ast_parse :: "string \<Rightarrow> py_exn + ast"
  http_post :: "string \<Rightarrow> payload \<Rightarrow> int \<Rightarrow> 'w \<Rightarrow> (py_exn + response) \<times> 'w"
  console_print :: "renderable \<Rightarrow> 'w \<Rightarrow> (py_exn + unit) \<times> 'w"
  now_iso :: "'w \<Rightarrow> string \<times> 'w"

text \<open>Sequencing: an exception ends the computation, a value goes to the next step.\<close>

definition and_then ::
  "('e + 'a) \<times> 'w \<Rightarrow> ('a \<Rightarrow> 'w \<Rightarrow> ('e + 'b) \<times> 'w) \<Rightarrow> ('e + 'b) \<times> 'w" where
  "and_then m f = (case m of (Inl e, w) \<Rightarrow> (Inl e, w) | (Inr a, w) \<Rightarrow> f a w)"

section \<open>Code analyzer\<close>

text \<open>
  \<open>ast.walk\<close> keeps a queue: it takes the node at the front, puts that node's children
  at the back and yields the node.
\<close>

fun node_count :: "ast \<Rightarrow> nat" where
  "node_count (Node k cs) = Suc (sum_list (map node_count cs))"

function walk_queue :: "ast list \<Rightarrow> ast list" where
  "walk_queue [] = []"
| "walk_queue (n # todo) = n # walk_queue (todo @ children n)"
  by pat_completeness auto
termination
proof (relation "measure (\<lambda>q. sum_list (map node_count q))")
  show "wf (measure (\<lambda>q. sum_list (map node_count q)))" by simp
next
  fix n :: ast and todo :: "ast list"
  show "(todo @ children n, n # todo) \<in> measure (\<lambda>q. sum_list (map node_count q))"
    by (cases n) simp
qed

definition walk :: "ast \<Rightarrow> ast list" where
  "walk tree = walk_queue [tree]"

text \<open>
  The three lists \<open>functions\<close>, \<open>classes\<close> and \<open>imports\<close> of \<open>_analyze_code_content\<close>
  and the body of its loop.
\<close>

record names =
  function_names :: "string list"
  class_names :: "string list"
  import_names :: "string list"

definition str_module :: "string option \<Rightarrow> string" where
  "str_module m = (case m of None \<Rightarrow> ''None'' | Some s \<Rightarrow> s)"

definition visit :: "names \<Rightarrow> ast \<Rightarrow> names" where
  "visit acc node =
     (case kind node of
        FunctionDef name \<Rightarrow> acc\<lparr>function_names := function_names acc @ [name]\<rparr>
      | ClassDef name \<Rightarrow> acc\<lparr>class_names := class_names acc @ [name]\<rparr>
      | Import aliases \<Rightarrow> acc\<lparr>import_names := import_names acc @ aliases\<rparr>
      | ImportFrom m \<Rightarrow> acc\<lparr>import_names := import_names acc @ [''from '' @ str_module m]\<rparr>
      | _ \<Rightarrow> acc)"

definition collect :: "ast \<Rightarrow> names" where
  "collect tree = foldl visit \<lparr>function_names = [], class_names = [], import_names = []\<rparr> (walk tree)"

definition report :: "string \<Rightarrow> names \<Rightarrow> string" where
  "report code ns =
     join ''\<newline>''
       ([''Lines of code: '' @ str_nat (length (split code))]
        @ (if function_names ns \<noteq> [] then [''Functions: '' @ join '', '' (function_names ns)] else [])
        @ (if class_names ns \<noteq> [] then [''Classes: '' @ join '', '' (class_names ns)] else [])
        @ (if import_names ns \<noteq> [] then [''Imports: '' @ join '', '' (take 5 (import_names ns))] else []))"

definition analyze_code_content :: "'w os \<Rightarrow> string \<Rightarrow> py_exn + string" where
  "analyze_code_content os code =
     (case ast_parse os code of
        Inr tree \<Rightarrow> Inr (report code (collect tree))
      | Inl e \<Rightarrow>
          if exn_class e = SyntaxError then Inr (''Syntax Error: '' @ exn_str e)
          else if is_Exception e then Inr (''Analysis Error: '' @ exn_str e)
          else Inl e)"

section \<open>Tool executor\<close>

definition tool_body ::
  "'w os \<Rightarrow> string \<Rightarrow> tool_args \<Rightarrow> 'w \<Rightarrow> (py_exn + string) \<times> 'w" where
  "tool_body os tool_name args w =
     (if tool_name = ''read_file'' then
        (let path = get_arg args ''path'' [] in
         if path = [] then (Inr ''Error: path parameter required'', w)
         else read_text os path w)
      else if tool_name = ''write_file'' then
        (let path = get_arg args ''path'' [];
             content = get_arg args ''content'' [] in
         if path = [] then (Inr ''Error: path parameter required'', w)
         else and_then (write_text os path content w)
                (\<lambda>_ w'. (Inr (''File written: '' @ path), w')))
      else if tool_name = ''execute_command'' then
        (let command = get_arg args ''command'' [] in
         if command = [] then (Inr ''Error: command parameter required'', w)
         else and_then (run_shell os command 30 w)
                (\<lambda>result w'.
                   (Inr (''Exit code: '' @ str_int (returncode result)
                         @ ''\<newline>Output: '' @ stdout result
                         @ ''\<newline>Error: '' @ stderr result), w')))
      else if tool_name = ''analyze_code'' then
        (let code = get_arg args ''code'' [] in
         if code = [] then (Inr ''Error: code parameter required'', w)
         else (analyze_code_content os code, w))
      else if tool_name = ''list_files'' then
        (let path = get_arg args ''path'' ''.'' in
         and_then (listdir os path w) (\<lambda>files w'. (Inr (join ''\<newline>'' files), w')))
      else (Inr (''Unknown tool: '' @ tool_name), w))"

text \<open>\<open>except Exception as e: return f"Tool error: {str(e)}"\<close>.\<close>

definition tool_boundary :: "(py_exn + string) \<times> 'w \<Rightarrow> (py_exn + string) \<times> 'w" where
  "tool_boundary r =
     (case r of
        (Inl e, w) \<Rightarrow> if is_Exception e then (Inr (''Tool error: '' @ exn_str e), w)
                     else (Inl e, w)
      | (Inr s, w) \<Rightarrow> (Inr s, w))"

definition execute_tool ::
  "'w os \<Rightarrow> string \<Rightarrow> string \<Rightarrow> 'w \<Rightarrow> (py_exn + string) \<times> 'w" where
  "execute_tool os tool_name args_str w =
     tool_boundary (tool_body os tool_name (parse_args args_str) w)"

section \<open>Tool-call parser\<close>

text \<open>
  \<open>re.findall(r'TOOL:\s*(\w+)\s*([^\n]*)', user_input, re.IGNORECASE)\<close>. At one position
  the pattern needs the five characters of \<open>TOOL:\<close> in either case; \<open>\s*\<close> then takes
  all the whitespace there is, and no shorter run could help, since the next pattern
  item is a word character; \<open>\w+\<close> takes all the word characters and needs one; the two
  last items match any text, so nothing is ever given back. The search for the next
  match goes on where the last one ended.
\<close>

definition match_at :: "string \<Rightarrow> ((string \<times> string) \<times> string) option" where
  "match_at s =
     (if upper (take 5 s) = ''TOOL:'' then
        (let r1 = dropWhile is_space (drop 5 s);
             tool_name = takeWhile is_word r1;
             r2 = dropWhile is_space (dropWhile is_word r1)
         in if tool_name = [] then None
            else Some ((tool_name, takeWhile (\<lambda>c. c \<noteq> CHR 0x0A) r2),
                       dropWhile (\<lambda>c. c \<noteq> CHR 0x0A) r2))
      else None)"

function findall :: "string \<Rightarrow> (string \<times> string) list" where
  "findall [] = []"
| "findall (c # cs) =
     (case match_at (c # cs) of
        Some (m, rest) \<Rightarrow> m # findall rest
      | None \<Rightarrow> findall cs)"
  by pat_completeness auto
termination
proof (relation "measure length")
  show "wf (measure length)" by simp
next
  fix c :: char and cs :: string and x2 :: "(string \<times> string) \<times> string"
    and m :: "string \<times> string" and rest :: string
  assume a: "match_at (c # cs) = Some x2" and x2: "(m, rest) = x2"
  define s where "s = c # cs"
  define r1 where "r1 = dropWhile is_space (drop 5 s)"
  define r2 where "r2 = dropWhile is_space (dropWhile is_word r1)"
  from a have up: "upper (take 5 s) = ''TOOL:''"
    by (auto simp: match_at_def s_def split: if_splits)
  then have "length (upper (take 5 s)) = 5" by simp
  then have len: "5 \<le> length s" by (simp add: upper_def)
  have "rest = dropWhile (\<lambda>c. c \<noteq> CHR 0x0A) r2"
    using a x2 up unfolding s_def [symmetric]
    by (auto simp: match_at_def Let_def r1_def r2_def split: if_splits)
  moreover have "length (dropWhile (\<lambda>c. c \<noteq> CHR 0x0A) r2) \<le> length r2"
    by (rule length_dropWhile_le)
  moreover have "length r2 \<le> length (dropWhile is_word r1)"
    unfolding r2_def by (rule length_dropWhile_le)
  moreover have "length (dropWhile is_word r1) \<le> length r1"
    by (rule length_dropWhile_le)
  moreover have "length r1 \<le> length (drop 5 s)"
    unfolding r1_def by (rule length_dropWhile_le)
  ultimately have "length rest < length s" using len by simp
  then show "(rest, c # cs) \<in> measure length" by (simp add: s_def)
next
  fix c :: char and cs :: string
  show "(cs, c # cs) \<in> measure length" by simp
qed

text \<open>The loop of \<open>_execute_tool_request\<close>: run each match, print its header and result.\<close>

fun run_matches ::
  "'w os \<Rightarrow> (string \<times> string) list \<Rightarrow> 'w \<Rightarrow> (py_exn + (string \<times> string) list) \<times> 'w" where
  "run_matches os [] w = (Inr [], w)"
| "run_matches os ((tool_name, args_str) # rest) w =
     and_then (execute_tool os tool_name args_str w) (\<lambda>result w1.
     and_then (console_print os (Text (''[cyan]Tool result ('' @ tool_name @ ''):[/cyan]'')) w1) (\<lambda>_ w2.
     and_then (console_print os (Text result) w2) (\<lambda>_ w3.
     and_then (run_matches os rest w3) (\<lambda>out w4.
       (Inr ((tool_name, result) # out), w4)))))"

definition execute_tool_request ::
  "'w os \<Rightarrow> string \<Rightarrow> 'w \<Rightarrow> (py_exn + (string \<times> string) list) \<times> 'w" where
  "execute_tool_request os user_input w = run_matches os (findall user_input) w"

section \<open>Context window and conversation\<close>

text \<open>Python list operations: \<open>xs.insert(i, x)\<close> for any index, and \<open>xs[-n:]\<close>.\<close>

definition insert_at :: "int \<Rightarrow> 'a \<Rightarrow> 'a list \<Rightarrow> 'a list" where
  "insert_at i x xs =
     (let n = int (length xs);
          j = nat (if i < 0 then max 0 (n + i) else min i n)
      in take j xs @ [x] @ drop j xs)"

definition last_n :: "nat \<Rightarrow> 'a list \<Rightarrow> 'a list" where
  "last_n n xs = drop (length xs - n) xs"

record exchange =
  user :: json
  assistant :: json
  timestamp :: string

text \<open>
  The configuration as \<open>_send_to_model\<close> reads it: each field is the outcome of one
  expression over \<open>self.config\<close>, a value or the \<open>KeyError\<close> or \<open>ValueError\<close> it raises.
  The temperature is kept as its text.
\<close>

record config =
  cfg_endpoint :: "py_exn + string"
  cfg_temperature :: "py_exn + string"
  cfg_max_tokens :: "py_exn + int"
  cfg_timeout :: "py_exn + int"

record session =
  conversation_history :: "exchange list"
  context_lines :: "string list"
  config :: config

definition base_prompt :: string where
  "base_prompt =
     ''You are AiCode, a helpful coding assistant optimized for small local models. \<newline>''
     @ ''Be concise, practical, and focus on actionable solutions. \<newline>''
     @ ''\<newline>''
     @ ''Available tools: read_file, write_file, execute_command, analyze_code\<newline>''
     @ ''\<newline>''
     @ ''When user asks for file operations or code analysis, suggest using tools like:\<newline>''
     @ ''TOOL: read_file path=filename.py\<newline>''
     @ ''TOOL: write_file path=filename.py content='' @ [CHR 0x22] @ ''code here'' @ [CHR 0x22] @ ''\<newline>''
     @ ''TOOL: execute_command command='' @ [CHR 0x22] @ ''python script.py'' @ [CHR 0x22] @ ''\<newline>''
     @ ''TOOL: analyze_code code='' @ [CHR 0x22] @ ''code to analyze'' @ [CHR 0x22]
     @ '' language='' @ [CHR 0x22] @ ''python'' @ [CHR 0x22] @ ''\<newline>''
     @ ''\<newline>''
     @ ''Keep responses under 200 words unless explaining complex concepts.''"

definition get_system_prompt :: "string list \<Rightarrow> string" where
  "get_system_prompt ctx =
     (if ctx \<noteq> [] then base_prompt @ ''\<newline>\<newline>Project context:\<newline>'' @ join ''\<newline>'' (take 10 ctx)
      else base_prompt)"

text \<open>The loop over \<open>recent\<close>: two insertions before the last message for each exchange.\<close>

fun splice :: "message list \<Rightarrow> exchange list \<Rightarrow> message list" where
  "splice msgs [] = msgs"
| "splice msgs (e # es) =
     splice (insert_at (- 1) \<lparr>role = ''assistant'', content = assistant e\<rparr>
              (insert_at (- 1) \<lparr>role = ''user'', content = user e\<rparr> msgs)) es"

definition build_messages :: "string list \<Rightarrow> exchange list \<Rightarrow> string \<Rightarrow> message list" where
  "build_messages ctx history user_input =
     (let msgs = [\<lparr>role = ''system'', content = JStr (get_system_prompt ctx)\<rparr>,
                  \<lparr>role = ''user'', content = JStr user_input\<rparr>]
      in if history \<noteq> [] then splice msgs (last_n 3 history) else msgs)"

text \<open>Truth value, \<open>key in v\<close>, \<open>v[key]\<close> and \<open>v[0]\<close> of a decoded JSON value.\<close>

definition truthy :: "json \<Rightarrow> bool" where
  "truthy v =
     (case v of JNull \<Rightarrow> False | JBool b \<Rightarrow> b | JInt i \<Rightarrow> i \<noteq> 0 | JFloat nz \<Rightarrow> nz
      | JStr s \<Rightarrow> s \<noteq> [] | JArr xs \<Rightarrow> xs \<noteq> [] | JObj kvs \<Rightarrow> kvs \<noteq> [])"

definition type_name :: "json \<Rightarrow> string" where
  "type_name v =
     (case v of JNull \<Rightarrow> ''NoneType'' | JBool b \<Rightarrow> ''bool'' | JInt i \<Rightarrow> ''int''
      | JFloat nz \<Rightarrow> ''float'' | JStr s \<Rightarrow> ''str'' | JArr xs \<Rightarrow> ''list'' | JObj kvs \<Rightarrow> ''dict'')"

definition py_in :: "string \<Rightarrow> json \<Rightarrow> py_exn + bool" where
  "py_in k v =
     (case v of
        JObj kvs \<Rightarrow> Inr (k \<in> set (map fst kvs))
      | JArr xs \<Rightarrow> Inr (JStr k \<in> set xs)
      | JStr s \<Rightarrow> Inr (contains k s)
      | _ \<Rightarrow> Inl (PyExn TypeError
                 (''argument of type '' @ [CHR 0x27] @ type_name v @ [CHR 0x27] @ '' is not iterable'')))"

definition not_subscriptable :: "json \<Rightarrow> py_exn" where
  "not_subscriptable v =
     PyExn TypeError ([CHR 0x27] @ type_name v @ [CHR 0x27] @ '' object is not subscriptable'')"

definition getitem :: "json \<Rightarrow> string \<Rightarrow> py_exn + json" where
  "getitem v k =
     (case v of
        JObj kvs \<Rightarrow>
          (case map_of kvs k of
             Some x \<Rightarrow> Inr x
           | None \<Rightarrow> Inl (PyExn KeyError ([CHR 0x27] @ k @ [CHR 0x27])))
      | JArr xs \<Rightarrow> Inl (PyExn TypeError ''list indices must be integers or slices, not str'')
      | JStr s \<Rightarrow> Inl (PyExn TypeError ''string indices must be integers'')
      | _ \<Rightarrow> Inl (not_subscriptable v))"

definition getitem0 :: "json \<Rightarrow> py_exn + json" where
  "getitem0 v =
     (case v of
        JArr xs \<Rightarrow>
          (case xs of x # _ \<Rightarrow> Inr x
           | [] \<Rightarrow> Inl (PyExn IndexError ''list index out of range''))
      | JStr s \<Rightarrow>
          (case s of c # _ \<Rightarrow> Inr (JStr [c])
           | [] \<Rightarrow> Inl (PyExn IndexError ''string index out of range''))
      | JObj kvs \<Rightarrow> Inl (PyExn KeyError ''0'')
      | _ \<Rightarrow> Inl (not_subscriptable v))"

text \<open>
  \<open>_send_to_model\<close>. \<open>JNull\<close> is \<open>None\<close>. The handler takes a \<open>RequestException\<close>, prints
  two lines and lets the function end with \<open>return None\<close>; any other exception leaves
  the function.
\<close>

definition on_request_exception ::
  "'w os \<Rightarrow> (py_exn + json) \<times> 'w \<Rightarrow> (py_exn + json) \<times> 'w" where
  "on_request_exception os r =
     (case r of
        (Inl e, w) \<Rightarrow>
          if exn_class e = RequestException then
            and_then (console_print os (Text (''[red]Connection error: '' @ exn_str e @ ''[/red]'')) w) (\<lambda>_ w1.
            and_then (console_print os
                        (Text ''[yellow]Check if your local model server is running[/yellow]'') w1) (\<lambda>_ w2.
              (Inr JNull, w2)))
          else (Inl e, w)
      | (Inr v, w) \<Rightarrow> (Inr v, w))"

definition read_reply :: "json \<Rightarrow> py_exn + json" where
  "read_reply data =
     (case py_in ''choices'' data of
        Inl e \<Rightarrow> Inl e
      | Inr False \<Rightarrow> Inr JNull
      | Inr True \<Rightarrow>
          (case getitem data ''choices'' of
             Inl e \<Rightarrow> Inl e
           | Inr choices \<Rightarrow>
               if truthy choices then
                 (case getitem0 choices of
                    Inl e \<Rightarrow> Inl e
                  | Inr c \<Rightarrow>
                      (case getitem c ''message'' of
                         Inl e \<Rightarrow> Inl e
                       | Inr m \<Rightarrow> getitem m ''content''))
               else Inr JNull))"

definition send_to_model ::
  "'w os \<Rightarrow> config \<Rightarrow> message list \<Rightarrow> 'w \<Rightarrow> (py_exn + json) \<times> 'w" where
  "send_to_model os cfg msgs w =
     and_then (cfg_endpoint cfg, w) (\<lambda>endpoint w.
     and_then (cfg_temperature cfg, w) (\<lambda>temp w.
     and_then (cfg_max_tokens cfg, w) (\<lambda>maxtok w.
       on_request_exception os
         (and_then (cfg_timeout cfg, w) (\<lambda>timeout w.
          and_then (http_post os endpoint
                      \<lparr>model = ''gpt-3.5-turbo'', messages = msgs,
                       temperature = temp, max_tokens = maxtok\<rparr> timeout w) (\<lambda>resp w1.
            if status_code resp = 200 then
              and_then (json_body resp, w1) (\<lambda>data w2. (read_reply data, w2))
            else
              and_then (console_print os
                          (Text (''[red]Model error: HTTP '' @ str_int (status_code resp) @ ''[/red]'')) w1)
                (\<lambda>_ w2. (Inr JNull, w2))))))))"

text \<open>\<open>_display_response\<close>: the test \<open>'```' in response\<close>, then one print.\<close>

definition display_response :: "'w os \<Rightarrow> json \<Rightarrow> 'w \<Rightarrow> (py_exn + unit) \<times> 'w" where
  "display_response os reply w =
     and_then (py_in ''```'' reply, w) (\<lambda>fenced w.
       console_print os (if fenced then Markdown reply else Panel reply) w)"

text \<open>
  \<open>_process_conversation\<close>. The result is the exception that left the function, if any,
  with the session and the world as the call left them.
\<close>

definition process_conversation ::
  "'w os \<Rightarrow> session \<Rightarrow> string \<Rightarrow> 'w \<Rightarrow> py_exn option \<times> session \<times> 'w" where
  "process_conversation os sess user_input w =
     (if contains ''TOOL:'' (upper user_input) then
        (case execute_tool_request os user_input w of
           (Inl e, w1) \<Rightarrow> (Some e, sess, w1)
         | (Inr out, w1) \<Rightarrow> (None, sess, w1))
      else
        (case send_to_model os (config sess)
                (build_messages (context_lines sess) (conversation_history sess) user_input) w of
           (Inl e, w1) \<Rightarrow> (Some e, sess, w1)
         | (Inr reply, w1) \<Rightarrow>
             if truthy reply then
               (case display_response os reply w1 of
                  (Inl e, w2) \<Rightarrow> (Some e, sess, w2)
                | (Inr u, w2) \<Rightarrow>
                    (case now_iso os w2 of
                       (ts, w3) \<Rightarrow>
                         (None,
                          sess\<lparr>conversation_history :=
                                 conversation_history sess
                                 @ [\<lparr>user = JStr user_input, assistant = reply, timestamp = ts\<rparr>]\<rparr>,
                          w3)))
             else
               (case console_print os
                       (Text ''[red]Error: Could not get response from model[/red]'') w1 of
                  (Inl e, w2) \<Rightarrow> (Some e, sess, w2)
                | (Inr u, w2) \<Rightarrow> (None, sess, w2))))"

section \<open>Reference notions\<close>

text \<open>Document order of a syntax tree: a node, then its children from left to right.\<close>

fun preorder :: "ast \<Rightarrow> ast list" where
  "preorder (Node k cs) = Node k cs # concat (map preorder cs)"

text \<open>The names one node contributes to each list.\<close>

definition function_of :: "ast \<Rightarrow> string list" where
  "function_of n = (case kind n of FunctionDef name \<Rightarrow> [name] | _ \<Rightarrow> [])"

definition class_of :: "ast \<Rightarrow> string list" where
  "class_of n = (case kind n of ClassDef name \<Rightarrow> [name] | _ \<Rightarrow> [])"

definition import_of :: "ast \<Rightarrow> string list" where
  "import_of n =
     (case kind n of
        Import aliases \<Rightarrow> aliases
      | ImportFrom m \<Rightarrow> [''from '' @ str_module m]
      | _ \<Rightarrow> [])"

definition names_of :: "ast list \<Rightarrow> names" where
  "names_of nodes =
     \<lparr>function_names = concat (map function_of nodes),
      class_names = concat (map class_of nodes),
      import_names = concat (map import_of nodes)\<rparr>"

text \<open>A node that contributes no name, and a tree whose names all sit at the top level.\<close>

definition silent :: "ast \<Rightarrow> bool" where
  "silent n \<longleftrightarrow> function_of n = [] \<and> class_of n = [] \<and> import_of n = []"

definition top_level_only :: "ast \<Rightarrow> bool" where
  "top_level_only tree \<longleftrightarrow>
     list_all (\<lambda>c. list_all silent (concat (map preorder (children c)))) (children tree)"

text \<open>The five letters of the marker in either case, at the head of a text.\<close>

fun starts_with_marker :: "string \<Rightarrow> bool" where
  "starts_with_marker (a # b # c # d # e # rest) \<longleftrightarrow>
     a \<in> set ''Tt'' \<and> b \<in> set ''Oo'' \<and> c \<in> set ''Oo'' \<and> d \<in> set ''Ll'' \<and> e = CHR '':''"
| "starts_with_marker s \<longleftrightarrow> False"

text \<open>A text mentions the marker when one of its suffixes starts with it.\<close>

fun tails :: "'a list \<Rightarrow> 'a list list" where
  "tails [] = [[]]"
| "tails (x # xs) = (x # xs) # tails xs"

definition mentions_marker :: "string \<Rightarrow> bool" where
  "mentions_marker s \<longleftrightarrow> list_ex starts_with_marker (tails s)"

text \<open>An environment raises only instances of \<open>Exception\<close> in the operations the tools use.\<close>

definition faults_are_Exceptions :: "'w os \<Rightarrow> bool" where
  "faults_are_Exceptions os \<longleftrightarrow>
     (\<forall>p w e. fst (read_text os p w) = Inl e \<longrightarrow> is_Exception e)
     \<and> (\<forall>p t w e. fst (write_text os p t w) = Inl e \<longrightarrow> is_Exception e)
     \<and> (\<forall>c t w e. fst (run_shell os c t w) = Inl e \<longrightarrow> is_Exception e)
     \<and> (\<forall>p w e. fst (listdir os p w) = Inl e \<longrightarrow> is_Exception e)
     \<and> (\<forall>c e. ast_parse os c = Inl e \<longrightarrow> is_Exception e)"

section \<open>A sample environment\<close>

text \<open>
  For concrete runs: the world is a list of files with their text. Reading a missing
  file raises \<open>FileNotFoundError\<close>; the command \<open>yes\<close> never ends and is stopped by the
  timeout, every other command exits with status 7; the parser knows three texts by
  the trees \<open>ast.parse\<close> builds for them; the endpoint is down.
\<close>

type_synonym files = "(string \<times> string) list"

definition three_lines :: string where
  "three_lines = ''def f(): pass\<newline>class C: pass\<newline>import os''"

definition three_lines_tree :: ast where
  "three_lines_tree =
     Node (Other ''Module'')
       [Node (FunctionDef ''f'') [Node (Other ''arguments'') [], Node (Other ''Pass'') []],
        Node (ClassDef ''C'') [Node (Other ''Pass'') []],
        Node (Import [''os'']) [Node (Other ''alias'') []]]"

definition nested_defs :: string where
  "nested_defs = ''def a():\<newline>    def b(): pass\<newline>def c(): pass''"

definition nested_defs_tree :: ast where
  "nested_defs_tree =
     Node (Other ''Module'')
       [Node (FunctionDef ''a'')
          [Node (Other ''arguments'') [],
           Node (FunctionDef ''b'') [Node (Other ''arguments'') [], Node (Other ''Pass'') []]],
        Node (FunctionDef ''c'') [Node (Other ''arguments'') [], Node (Other ''Pass'') []]]"

definition sample_parse :: "string \<Rightarrow> py_exn + ast" where
  "sample_parse code =
     (if code = three_lines then Inr three_lines_tree
      else if code = nested_defs then Inr nested_defs_tree
      else if code = ''pass'' then Inr (Node (Other ''Module'') [Node (Other ''Pass'') []])
      else Inl (PyExn SyntaxError ''invalid syntax (<unknown>, line 1)''))"

definition sample_os :: "files os" where
  "sample_os =
     \<lparr>read_text = (\<lambda>path fs.
        case map_of fs path of
          Some text \<Rightarrow> (Inr text, fs)
        | None \<Rightarrow>
            (Inl (PyExn OSError (''[Errno 2] No such file or directory: ''
                                 @ [CHR 0x27] @ path @ [CHR 0x27])), fs)),
      write_text = (\<lambda>path text fs. (Inr (), (path, text) # fs)),
      run_shell = (\<lambda>command t fs.
        if command = ''yes'' then
          (Inl (PyExn TimeoutExpired
                  (''Command '' @ [CHR 0x27] @ command @ [CHR 0x27] @ '' timed out after ''
                   @ str_nat t @ '' seconds'')), fs)
        else (Inr \<lparr>returncode = 7, stdout = [], stderr = []\<rparr>, fs)),
      listdir = (\<lambda>path fs. (Inr (map fst fs), fs)),
      ast_parse = sample_parse,
      http_post = (\<lambda>endpoint p t fs. (Inl (PyExn RequestException ''Connection refused''), fs)),
      console_print = (\<lambda>r fs. (Inr (), fs)),
      now_iso = (\<lambda>fs. (''2024-01-01T00:00:00'', fs))\<rparr>"

text \<open>The same environment with the endpoint up: it answers every request with \<open>hi\<close>.\<close>

definition sample_reply :: json where
  "sample_reply =
     JObj [(''choices'', JArr [JObj [(''message'', JObj [(''content'', JStr ''hi'')])]])]"

definition sample_os_up :: "files os" where
  "sample_os_up =
     sample_os\<lparr>http_post :=
       (\<lambda>endpoint p t fs. (Inr \<lparr>status_code = 200, json_body = Inr sample_reply\<rparr>, fs))\<rparr>"

definition sample_config :: config where
  "sample_config =
     \<lparr>cfg_endpoint = Inr ''http://localhost:11434/v1/chat/completions'',
      cfg_temperature = Inr ''0.7'',
      cfg_max_tokens = Inr 2048,
      cfg_timeout = Inr 30\<rparr>"

definition sample_session :: session where
  "sample_session = \<lparr>conversation_history = [], context_lines = [], config = sample_config\<rparr>"

section \<open>Argument parsing\<close>

lemma split_from_space:
  "is_space c \<Longrightarrow> split_from cur (a @ c # b) = split_from cur a @ split_from [] b"
  by (induction a arbitrary: cur) auto

lemma split_from_word:
  "\<forall>c\<in>set w. \<not> is_space c \<Longrightarrow> split_from cur w = (if cur @ w = [] then [] else [cur @ w])"
  by (induction w arbitrary: cur) auto

lemma split_from_tokens:
  "\<forall>c\<in>set cur. \<not> is_space c \<Longrightarrow> t \<in> set (split_from cur s) \<Longrightarrow> \<forall>c\<in>set t. \<not> is_space c"
proof (induction s arbitrary: cur)
  case Nil
  then show ?case by (simp split: if_splits)
next
  case (Cons a s)
  show ?case
  proof (cases "is_space a")
    case True
    then have "t = cur \<or> t \<in> set (split_from [] s)"
      using Cons.prems(2) by (auto split: if_splits)
    then show ?thesis using Cons.IH [of "[]"] Cons.prems(1) by auto
  next
    case False
    then have "t \<in> set (split_from (cur @ [a]) s)" using Cons.prems(2) by simp
    moreover have "\<forall>c\<in>set (cur @ [a]). \<not> is_space c" using False Cons.prems(1) by simp
    ultimately show ?thesis using Cons.IH [of "cur @ [a]"] by blast
  qed
qed

lemma find_append:
  "find P (xs @ ys) = (case find P xs of Some x \<Rightarrow> Some x | None \<Rightarrow> find P ys)"
  by (induction xs) auto

lemma store_args_filter: "store_args m ts = store_args m (filter has_eq ts)"
  by (induction ts arbitrary: m) auto

lemma store_args_lookup:
  "store_args m ts k =
     (case find (\<lambda>t. has_eq t \<and> arg_key t = k) (rev ts) of
        Some t \<Rightarrow> Some (arg_value t) | None \<Rightarrow> m k)"
  by (induction ts arbitrary: m) (auto simp: find_append split: option.splits)

lemma set_strip: "set (strip cs s) \<subseteq> set s"
proof -
  have "set (strip cs s) \<subseteq> set (dropWhile (\<lambda>c. c \<in> set cs) s)"
    unfolding strip_def using set_dropWhileD by fastforce
  also have "\<dots> \<subseteq> set s" using set_dropWhileD by fastforce
  finally show ?thesis .
qed

lemma set_arg_value: "set (arg_value t) \<subseteq> set t"
proof -
  have "set (arg_raw_value t) \<subseteq> set t"
    unfolding arg_raw_value_def
    by (metis list.set_sel(2) set_dropWhileD subsetI tl_Nil)
  then show ?thesis unfolding arg_value_def using set_strip by fastforce
qed

lemma strip_quoted:
  assumes "set q1 \<subseteq> set cs" "set q2 \<subseteq> set cs"
    and "body = [] \<or> hd body \<notin> set cs \<and> last body \<notin> set cs"
  shows "strip cs (q1 @ body @ q2) = body"
proof (cases "body = []")
  case True
  have "\<forall>x\<in>set (q1 @ q2). x \<in> set cs"
    using assms by auto
  then have "dropWhile (\<lambda>c. c \<in> set cs) (q1 @ q2) = []"
    unfolding dropWhile_eq_Nil_conv by blast
  then have "dropWhile (\<lambda>c. c \<in> set cs) (q1 @ body @ q2) = []"
    unfolding True by (simp only: append_Nil)
  then show ?thesis unfolding strip_def using True by (simp only: rev.simps dropWhile.simps)
next
  case False
  then obtain h t where b: "body = h # t" by (cases body) auto
  have h: "h \<notin> set cs" and l: "last body \<notin> set cs" using assms False b by auto
  have 1: "dropWhile (\<lambda>c. c \<in> set cs) (q1 @ body @ q2) = body @ q2"
    using assms(1) h b by (simp add: dropWhile_append2 subset_iff)
  have "rev body \<noteq> []" using False by simp
  then obtain h' t' where rb: "rev body = h' # t'" by (cases "rev body") auto
  then have "h' = last body" by (metis False last_rev list.sel(1) rev_rev_ident hd_rev)
  then have "dropWhile (\<lambda>c. c \<in> set cs) (rev body) = rev body"
    unfolding rb using l by simp
  moreover have "dropWhile (\<lambda>c. c \<in> set cs) (rev q2 @ rev body)
      = dropWhile (\<lambda>c. c \<in> set cs) (rev body)"
    using assms(2) by (intro dropWhile_append2) auto
  ultimately have 2: "dropWhile (\<lambda>c. c \<in> set cs) (rev q2 @ rev body) = rev body"
    by simp
  show ?thesis by (simp add: strip_def 1 2)
qed

lemma arg_split_first_eq:
  "CHR ''='' \<notin> set k \<Longrightarrow> arg_key (k @ CHR ''='' # v) = k \<and> arg_raw_value (k @ CHR ''='' # v) = v"
  by (induction k) (auto simp: arg_key_def arg_raw_value_def)

lemma single_pair:
  assumes k: "CHR ''='' \<notin> set k" and w: "\<forall>x\<in>set (k @ v). \<not> is_space x"
  shows "parse_args (k @ CHR ''='' # v) = [k \<mapsto> strip quotes v]"
proof -
  define tok where "tok = k @ CHR ''='' # v"
  have "\<not> is_space (CHR ''='')" by (simp add: is_space_def)
  then have "\<forall>x\<in>set tok. \<not> is_space x" using w by (auto simp: tok_def)
  then have "split tok = [tok]" by (simp add: split_def split_from_word tok_def)
  moreover have "has_eq tok" by (simp add: has_eq_def tok_def)
  moreover have "tok \<noteq> []" by (simp add: tok_def)
  ultimately have "parse_args tok = [arg_key tok \<mapsto> arg_value tok]"
    by (simp add: parse_args_def)
  moreover have "arg_key tok = k" "arg_value tok = strip quotes v"
    using arg_split_first_eq [OF k, of v] by (simp_all add: tok_def arg_value_def)
  ultimately show ?thesis by (simp add: tok_def)
qed

text \<open>
  Claim C5. The argument map is built from the whitespace-separated tokens of the raw
  argument text. Splitting is characterised by three equations: the empty text has no
  tokens, a non-empty text without whitespace is its own single token, and a whitespace
  character separates the tokens before it from those after it. A token is cut at its
  first \<open>=\<close>; quote characters around a text are stripped; tokens without \<open>=\<close> do not
  contribute; the value of a key is the text after the first \<open>=\<close> of the last token
  that carries the key, with the quote characters stripped from its ends; and a single
  pair whose value is written in quotes maps the key to the value without them.
\<close>

theorem parse_args_token_map:
  "split [] = []
   \<and> (w \<noteq> [] \<and> (\<forall>c\<in>set w. \<not> is_space c) \<longrightarrow> split w = [w])
   \<and> (is_space c \<longrightarrow> split (a @ c # b) = split a @ split b)
   \<and> (CHR ''='' \<notin> set k \<longrightarrow>
        arg_key (k @ CHR ''='' # v) = k \<and> arg_raw_value (k @ CHR ''='' # v) = v)
   \<and> (set q1 \<subseteq> set quotes \<and> set q2 \<subseteq> set quotes
        \<and> (body = [] \<or> hd body \<notin> set quotes \<and> last body \<notin> set quotes) \<longrightarrow>
        strip quotes (q1 @ body @ q2) = body)
   \<and> parse_args s = store_args Map.empty (filter has_eq (split s))
   \<and> parse_args s key =
       (case find (\<lambda>t. has_eq t \<and> arg_key t = key) (rev (split s)) of
          Some t \<Rightarrow> Some (strip quotes (arg_raw_value t)) | None \<Rightarrow> None)
   \<and> (CHR ''='' \<notin> set name \<and> (\<forall>x\<in>set (name @ l @ inner @ r). \<not> is_space x)
        \<and> set l \<subseteq> set quotes \<and> set r \<subseteq> set quotes
        \<and> (inner = [] \<or> hd inner \<notin> set quotes \<and> last inner \<notin> set quotes) \<longrightarrow>
        parse_args (name @ CHR ''='' # l @ inner @ r) = [name \<mapsto> inner])"
proof -
  have p: "parse_args s = store_args Map.empty (split s)"
    by (simp add: parse_args_def split_def)
  have 1: "split [] = []" by (simp add: split_def)
  have 2: "w \<noteq> [] \<and> (\<forall>c\<in>set w. \<not> is_space c) \<longrightarrow> split w = [w]"
    by (simp add: split_def split_from_word)
  have 3: "is_space c \<longrightarrow> split (a @ c # b) = split a @ split b"
    by (simp add: split_def split_from_space)
  have 4: "CHR ''='' \<notin> set k \<longrightarrow>
        arg_key (k @ CHR ''='' # v) = k \<and> arg_raw_value (k @ CHR ''='' # v) = v"
    using arg_split_first_eq by blast
  have 5: "set q1 \<subseteq> set quotes \<and> set q2 \<subseteq> set quotes
        \<and> (body = [] \<or> hd body \<notin> set quotes \<and> last body \<notin> set quotes) \<longrightarrow>
        strip quotes (q1 @ body @ q2) = body"
    using strip_quoted by blast
  have 6: "parse_args s = store_args Map.empty (filter has_eq (split s))"
    unfolding p by (rule store_args_filter)
  have 7: "parse_args s key =
       (case find (\<lambda>t. has_eq t \<and> arg_key t = key) (rev (split s)) of
          Some t \<Rightarrow> Some (strip quotes (arg_raw_value t)) | None \<Rightarrow> None)"
    unfolding p by (simp add: store_args_lookup arg_value_def split: option.splits)
  have 8: "CHR ''='' \<notin> set name \<and> (\<forall>x\<in>set (name @ l @ inner @ r). \<not> is_space x)
        \<and> set l \<subseteq> set quotes \<and> set r \<subseteq> set quotes
        \<and> (inner = [] \<or> hd inner \<notin> set quotes \<and> last inner \<notin> set quotes) \<longrightarrow>
        parse_args (name @ CHR ''='' # l @ inner @ r) = [name \<mapsto> inner]"
  proof
    assume h: "CHR ''='' \<notin> set name \<and> (\<forall>x\<in>set (name @ l @ inner @ r). \<not> is_space x)
        \<and> set l \<subseteq> set quotes \<and> set r \<subseteq> set quotes
        \<and> (inner = [] \<or> hd inner \<notin> set quotes \<and> last inner \<notin> set quotes)"
    then have "parse_args (name @ CHR ''='' # l @ inner @ r)
        = [name \<mapsto> strip quotes (l @ inner @ r)]"
      by (intro single_pair) simp_all
    moreover have "strip quotes (l @ inner @ r) = inner"
      using h by (intro strip_quoted) simp_all
    ultimately show "parse_args (name @ CHR ''='' # l @ inner @ r) = [name \<mapsto> inner]"
      by simp
  qed
  show ?thesis by (intro conjI 1 2 3 4 5 6 7 8)
qed

lemmas args_eval = parse_args_def split_def is_space_def has_eq_def arg_key_def arg_value_def arg_raw_value_def strip_def quotes_def

theorem parse_args_token_map_witness:
  "split ''x'' = [''x'']
   \<and> split (''a b'' @ CHR '' '' # ''c'') = split ''a b'' @ split ''c''
   \<and> arg_key (''k'' @ CHR ''='' # ''v=w'') = ''k''
   \<and> arg_raw_value (''k'' @ CHR ''='' # ''v=w'') = ''v=w''
   \<and> strip quotes ([CHR 0x22] @ ''it's'' @ [CHR 0x22, CHR 0x27]) = ''it's''
   \<and> parse_args ''ignored path=a path=b'' ''path'' = Some ''b''
   \<and> parse_args ''ignored path=a path=b'' ''ignored'' = None
   \<and> parse_args (''path'' @ CHR ''='' # [CHR 0x22] @ ''a.txt'' @ [CHR 0x22]) = [''path'' \<mapsto> ''a.txt'']
   \<and> parse_args (''path='' @ [CHR 0x22] @ ''a.txt'' @ [CHR 0x22] @ '' path='' @ [CHR 0x27]
                  @ ''b.txt'' @ [CHR 0x27]) ''path'' = Some ''b.txt''"
proof -
  note inst = parse_args_token_map [where w = "''x''" and c = "CHR '' ''" and a = "''a b''"
      and b = "''c''" and k = "''k''" and v = "''v=w''" and ?q1.0 = "[CHR 0x22]"
      and ?q2.0 = "[CHR 0x22, CHR 0x27]" and body = "''it's''"
      and name = "''path''" and l = "[CHR 0x22]" and inner = "''a.txt''" and r = "[CHR 0x22]"]
  have sp: "is_space (CHR '' '')" by (simp add: is_space_def)
  have 1: "split ''x'' = [''x'']"
    by (rule inst [THEN conjunct2, THEN conjunct1, THEN mp]) (simp add: is_space_def)
  have 2: "split (''a b'' @ CHR '' '' # ''c'') = split ''a b'' @ split ''c''"
    by (rule inst [THEN conjunct2, THEN conjunct2, THEN conjunct1, THEN mp, OF sp])
  have 34: "arg_key (''k'' @ CHR ''='' # ''v=w'') = ''k''
      \<and> arg_raw_value (''k'' @ CHR ''='' # ''v=w'') = ''v=w''"
    by (rule inst [THEN conjunct2, THEN conjunct2, THEN conjunct2, THEN conjunct1, THEN mp]) simp
  have 5: "strip quotes ([CHR 0x22] @ ''it's'' @ [CHR 0x22, CHR 0x27]) = ''it's''"
    by (rule inst [THEN conjunct2, THEN conjunct2, THEN conjunct2, THEN conjunct2, THEN conjunct1,
          THEN mp]) (simp add: quotes_def)
  have 6: "parse_args ''ignored path=a path=b'' ''path'' = Some ''b''"
    unfolding parse_args_token_map [where s = "''ignored path=a path=b''" and key = "''path''",
        THEN conjunct2, THEN conjunct2, THEN conjunct2, THEN conjunct2, THEN conjunct2,
        THEN conjunct2, THEN conjunct1]
    by (simp add: split_def is_space_def has_eq_def arg_key_def arg_raw_value_def strip_def quotes_def)
  have 7: "parse_args ''ignored path=a path=b'' ''ignored'' = None"
    unfolding parse_args_token_map [where s = "''ignored path=a path=b''" and key = "''ignored''",
        THEN conjunct2, THEN conjunct2, THEN conjunct2, THEN conjunct2, THEN conjunct2,
        THEN conjunct2, THEN conjunct1]
    by (simp add: split_def is_space_def has_eq_def arg_key_def arg_raw_value_def strip_def quotes_def)
  have 8: "parse_args (''path'' @ CHR ''='' # [CHR 0x22] @ ''a.txt'' @ [CHR 0x22]) = [''path'' \<mapsto> ''a.txt'']"
    by (rule inst [THEN conjunct2, THEN conjunct2, THEN conjunct2, THEN conjunct2, THEN conjunct2,
          THEN conjunct2, THEN conjunct2, THEN mp]) (simp add: quotes_def is_space_def)
  have 9: "parse_args (''path='' @ [CHR 0x22] @ ''a.txt'' @ [CHR 0x22] @ '' path='' @ [CHR 0x27]
                  @ ''b.txt'' @ [CHR 0x27]) ''path'' = Some ''b.txt''"
    unfolding parse_args_token_map [where key = "''path''"
        and s = "''path='' @ [CHR 0x22] @ ''a.txt'' @ [CHR 0x22] @ '' path='' @ [CHR 0x27]
                  @ ''b.txt'' @ [CHR 0x27]",
        THEN conjunct2, THEN conjunct2, THEN conjunct2, THEN conjunct2, THEN conjunct2,
        THEN conjunct2, THEN conjunct1]
    by (simp add: split_def is_space_def has_eq_def arg_key_def arg_raw_value_def strip_def quotes_def)
  show ?thesis
    by (intro conjI 1 2 34 [THEN conjunct1] 34 [THEN conjunct2] 5 6 7 8 9)
qed

lemma split_from_chars:
  "t \<in> set (split_from cur s) \<Longrightarrow> x \<in> set t \<Longrightarrow> x \<in> set cur \<or> x \<in> set s"
proof (induction s arbitrary: cur)
  case Nil
  then show ?case by (simp split: if_splits)
next
  case (Cons a s)
  show ?case
  proof (cases "is_space a")
    case True
    then have "t = cur \<or> t \<in> set (split_from [] s)"
      using Cons.prems(1) by (auto split: if_splits)
    then show ?thesis using Cons.IH [of "[]"] Cons.prems(2) by auto
  next
    case False
    then have "t \<in> set (split_from (cur @ [a]) s)" using Cons.prems(1) by simp
    then show ?thesis using Cons.IH [of "cur @ [a]"] Cons.prems(2) by auto
  qed
qed

lemma parse_args_value_no_space:
  assumes "parse_args s key = Some v"
  shows "\<forall>c\<in>set v. \<not> is_space c"
proof -
  have "parse_args s = store_args Map.empty (split s)"
    by (simp add: parse_args_def split_def)
  with assms obtain t where f: "find (\<lambda>t. has_eq t \<and> arg_key t = key) (rev (split s)) = Some t"
    and v: "v = arg_value t"
    by (auto simp: store_args_lookup split: option.splits)
  from f obtain i where "i < length (rev (split s))" "rev (split s) ! i = t"
    unfolding find_Some_iff by blast
  then have "t \<in> set (rev (split s))" using nth_mem by blast
  then have "t \<in> set (split s)" by simp
  then have "\<forall>c\<in>set t. \<not> is_space c"
    unfolding split_def using split_from_tokens [of "[]" t s] by simp
  then show ?thesis using v set_arg_value [of t] by auto
qed

lemma split_after_prefix:
  assumes "pre = [] \<or> is_space (last pre)"
  shows "split (pre @ s) = split pre @ split s"
proof (cases "pre = []")
  case True
  then show ?thesis by (simp add: split_def)
next
  case False
  then obtain p c0 where pre: "pre = p @ [c0]" by (metis rev_exhaust)
  then have c0: "is_space c0" using assms False by simp
  have "split (p @ c0 # s) = split p @ split s"
    using c0 by (simp add: split_def split_from_space)
  moreover have "split (p @ c0 # []) = split p @ split []"
    using c0 by (simp only: split_def split_from_space)
  ultimately show ?thesis by (simp add: pre split_def)
qed

lemma split_quoted_start:
  assumes q: "q \<in> set quotes" and c: "is_space c"
    and w: "\<forall>x\<in>set (k @ v1). \<not> is_space x"
    and pre: "pre = [] \<or> is_space (last pre)"
  shows "split (pre @ k @ CHR ''='' # q # v1 @ c # rest)
         = split pre @ [k @ CHR ''='' # q # v1] @ split rest"
proof -
  define tok where "tok = k @ CHR ''='' # q # v1"
  have "\<not> is_space q" "\<not> is_space (CHR ''='')"
    using q by (auto simp: quotes_def is_space_def)
  then have "\<forall>x\<in>set tok. \<not> is_space x" using w by (auto simp: tok_def)
  then have t: "split tok = [tok]" by (simp add: split_def split_from_word tok_def)
  have "split (tok @ c # rest) = split tok @ split rest"
    using c by (simp add: split_def split_from_space)
  then have "split (pre @ tok @ c # rest) = split pre @ [tok] @ split rest"
    using split_after_prefix [OF pre, of "tok @ c # rest"] t by simp
  then show ?thesis unfolding tok_def by (simp only: append_assoc append_Cons)
qed

lemma tokens_without_eq:
  assumes "CHR ''='' \<notin> set t"
  shows "filter has_eq (split t) = []"
proof -
  have "\<forall>u\<in>set (split t). \<not> has_eq u"
  proof
    fix u assume "u \<in> set (split t)"
    then have "\<forall>x\<in>set u. x \<in> set t"
      unfolding split_def using split_from_chars [of u "[]" t] by auto
    then show "\<not> has_eq u" using assms unfolding has_eq_def by auto
  qed
  then show ?thesis by (simp add: filter_empty_conv)
qed

lemma token_without_eq_dropped:
  assumes c: "is_space c" and t: "CHR ''='' \<notin> set t" and b: "b = [] \<or> is_space (hd b)"
  shows "parse_args (a @ c # t @ b) = parse_args (a @ c # b)"
proof -
  have sb: "split (t @ b) = split t @ split b"
  proof (cases b)
    case Nil
    then show ?thesis by (simp add: split_def)
  next
    case (Cons d b')
    then have d: "is_space d" using b by simp
    have "split (t @ d # b') = split t @ split b'"
      using d by (simp add: split_def split_from_space)
    moreover have "split ([] @ d # b') = split [] @ split b'"
      using d by (simp only: split_def split_from_space)
    ultimately show ?thesis using Cons by (simp add: split_def)
  qed
  have 1: "split (a @ c # t @ b) = split a @ split t @ split b"
    using c sb by (simp add: split_def split_from_space)
  have 2: "split (a @ c # b) = split a @ split b"
    using c by (simp add: split_def split_from_space)
  have "filter has_eq (split (a @ c # t @ b)) = filter has_eq (split (a @ c # b))"
    unfolding 1 2 using tokens_without_eq [OF t] by simp
  moreover have "parse_args (a @ c # t @ b)
      = store_args Map.empty (filter has_eq (split (a @ c # t @ b)))"
    using store_args_filter [of Map.empty "split (a @ c # t @ b)"] by (simp add: parse_args_def)
  moreover have "parse_args (a @ c # b)
      = store_args Map.empty (filter has_eq (split (a @ c # b)))"
    using store_args_filter [of Map.empty "split (a @ c # b)"] by (simp add: parse_args_def)
  ultimately show ?thesis by simp
qed

lemma quoted_key_lookup:
  assumes q: "q \<in> set quotes" and c: "is_space c" and k: "CHR ''='' \<notin> set k"
    and w: "\<forall>x\<in>set (k @ v1). \<not> is_space x"
    and pre: "pre = [] \<or> is_space (last pre)"
  shows "parse_args (pre @ k @ CHR ''='' # q # v1 @ c # rest) k =
           (case find (\<lambda>t. has_eq t \<and> arg_key t = k) (rev (split rest)) of
              Some t \<Rightarrow> Some (strip quotes (arg_raw_value t))
            | None \<Rightarrow> Some (strip quotes (q # v1)))"
proof -
  define tok where "tok = k @ CHR ''='' # q # v1"
  define s where "s = pre @ k @ CHR ''='' # q # v1 @ c # rest"
  have sp: "split s = split pre @ [tok] @ split rest"
    unfolding s_def tok_def by (rule split_quoted_start [OF q c w pre])
  have tk: "has_eq tok" "arg_key tok = k" "arg_value tok = strip quotes (q # v1)"
    using arg_split_first_eq [OF k, of "q # v1"]
    by (simp_all add: tok_def has_eq_def arg_value_def)
  have "s \<noteq> []" by (simp add: s_def)
  then have "parse_args s k = store_args Map.empty (split s) k" by (simp add: parse_args_def)
  also have "\<dots> = (case find (\<lambda>t. has_eq t \<and> arg_key t = k) (rev (split s)) of
        Some t \<Rightarrow> Some (arg_value t) | None \<Rightarrow> None)"
    by (simp add: store_args_lookup)
  also have "\<dots> = (case find (\<lambda>t. has_eq t \<and> arg_key t = k) (rev (split rest)) of
        Some t \<Rightarrow> Some (strip quotes (arg_raw_value t))
      | None \<Rightarrow> Some (strip quotes (q # v1)))"
    unfolding sp using tk by (simp add: find_append arg_value_def split: option.splits)
  finally show ?thesis unfolding s_def .
qed

text \<open>
  Claim C10, as amended. No value of the argument map ever contains whitespace. Wherever
  in the argument text a quoted value with whitespace inside begins, the text is cut
  there: the token with the key ends at the first whitespace. The key receives the text
  up to that whitespace with the quote characters stripped, unless a later token carries
  the same key, whose value then replaces it. A later token without \<open>=\<close> changes
  nothing in the map: the map is what it would be with that token left out. When no
  \<open>=\<close> follows in a text that is the one quoted pair, the map has the one entry.
\<close>

theorem quoted_value_stops_at_space:
  "(\<forall>v. parse_args s key = Some v \<longrightarrow> (\<forall>c\<in>set v. \<not> is_space c))
   \<and> (q \<in> set quotes \<and> is_space c \<and> CHR ''='' \<notin> set k
        \<and> (\<forall>x\<in>set (k @ v1). \<not> is_space x) \<and> CHR ''='' \<notin> set rest \<longrightarrow>
        parse_args (k @ CHR ''='' # q # v1 @ c # rest @ [q]) = [k \<mapsto> strip quotes (q # v1)])
   \<and> (q \<in> set quotes \<and> is_space c \<and> CHR ''='' \<notin> set k
        \<and> (\<forall>x\<in>set (k @ v1). \<not> is_space x) \<and> (pre = [] \<or> is_space (last pre)) \<longrightarrow>
        split (pre @ k @ CHR ''='' # q # v1 @ c # post)
          = split pre @ [k @ CHR ''='' # q # v1] @ split post
        \<and> parse_args (pre @ k @ CHR ''='' # q # v1 @ c # post) k =
            (case find (\<lambda>t. has_eq t \<and> arg_key t = k) (rev (split post)) of
               Some t \<Rightarrow> Some (strip quotes (arg_raw_value t))
             | None \<Rightarrow> Some (strip quotes (q # v1))))
   \<and> (q \<in> set quotes \<and> is_space c \<and> CHR ''='' \<notin> set k
        \<and> (\<forall>x\<in>set (k @ v1). \<not> is_space x) \<and> (pre = [] \<or> is_space (last pre))
        \<and> list_all (\<lambda>t. \<not> (has_eq t \<and> arg_key t = k)) (split post) \<longrightarrow>
        parse_args (pre @ k @ CHR ''='' # q # v1 @ c # post) k = Some (strip quotes (q # v1)))
   \<and> (is_space d \<and> CHR ''='' \<notin> set t \<and> (b = [] \<or> is_space (hd b)) \<longrightarrow>
        parse_args (a @ d # t @ b) = parse_args (a @ d # b))"
proof (intro conjI impI allI)
  fix v assume "parse_args s key = Some v"
  then show "\<forall>c\<in>set v. \<not> is_space c" by (rule parse_args_value_no_space)
next
  assume a: "q \<in> set quotes \<and> is_space c \<and> CHR ''='' \<notin> set k
        \<and> (\<forall>x\<in>set (k @ v1). \<not> is_space x) \<and> CHR ''='' \<notin> set rest"
  define tok where "tok = k @ CHR ''='' # q # v1"
  have q: "\<not> is_space q" "q \<noteq> CHR ''=''"
    using a by (auto simp: quotes_def is_space_def)
  have "split ([] @ k @ CHR ''='' # q # v1 @ c # rest @ [q])
      = split [] @ [k @ CHR ''='' # q # v1] @ split (rest @ [q])"
    using a by (intro split_quoted_start) simp_all
  then have sp: "split (tok @ c # rest @ [q]) = tok # split (rest @ [q])"
    by (simp add: tok_def split_def)
  have "CHR ''='' \<notin> set (rest @ [q])" using a q by auto
  then have "filter has_eq (split (rest @ [q])) = []" by (rule tokens_without_eq)
  moreover have "has_eq tok" by (simp add: has_eq_def tok_def)
  ultimately have f: "filter has_eq (split (tok @ c # rest @ [q])) = [tok]"
    by (simp add: sp)
  have "parse_args (tok @ c # rest @ [q]) = store_args Map.empty (split (tok @ c # rest @ [q]))"
    by (simp add: parse_args_def)
  also have "\<dots> = store_args Map.empty [tok]"
    using store_args_filter [of Map.empty "split (tok @ c # rest @ [q])"] f by simp
  also have "\<dots> = [arg_key tok \<mapsto> arg_value tok]" using \<open>has_eq tok\<close> by simp
  also have "arg_key tok = k" using a arg_split_first_eq [of k "q # v1"] by (simp add: tok_def)
  also have "arg_value tok = strip quotes (q # v1)"
    using a arg_split_first_eq [of k "q # v1"] by (simp add: tok_def arg_value_def)
  finally have "parse_args (tok @ c # rest @ [q]) = [k \<mapsto> strip quotes (q # v1)]" .
  then show "parse_args (k @ CHR ''='' # q # v1 @ c # rest @ [q]) = [k \<mapsto> strip quotes (q # v1)]"
    unfolding tok_def by (simp only: append_assoc append_Cons)
next
  assume a: "q \<in> set quotes \<and> is_space c \<and> CHR ''='' \<notin> set k
        \<and> (\<forall>x\<in>set (k @ v1). \<not> is_space x) \<and> (pre = [] \<or> is_space (last pre))"
  then show "split (pre @ k @ CHR ''='' # q # v1 @ c # post)
          = split pre @ [k @ CHR ''='' # q # v1] @ split post"
    by (intro split_quoted_start) simp_all
next
  assume a: "q \<in> set quotes \<and> is_space c \<and> CHR ''='' \<notin> set k
        \<and> (\<forall>x\<in>set (k @ v1). \<not> is_space x) \<and> (pre = [] \<or> is_space (last pre))"
  then show "parse_args (pre @ k @ CHR ''='' # q # v1 @ c # post) k =
            (case find (\<lambda>t. has_eq t \<and> arg_key t = k) (rev (split post)) of
               Some t \<Rightarrow> Some (strip quotes (arg_raw_value t))
             | None \<Rightarrow> Some (strip quotes (q # v1)))"
    by (intro quoted_key_lookup) simp_all
next
  assume a: "q \<in> set quotes \<and> is_space c \<and> CHR ''='' \<notin> set k
        \<and> (\<forall>x\<in>set (k @ v1). \<not> is_space x) \<and> (pre = [] \<or> is_space (last pre))
        \<and> list_all (\<lambda>t. \<not> (has_eq t \<and> arg_key t = k)) (split post)"
  then have "\<forall>t\<in>set (rev (split post)). \<not> (has_eq t \<and> arg_key t = k)"
    by (simp add: list_all_iff)
  then have "find (\<lambda>t. has_eq t \<and> arg_key t = k) (rev (split post)) = None"
    unfolding find_None_iff by blast
  moreover have "parse_args (pre @ k @ CHR ''='' # q # v1 @ c # post) k =
            (case find (\<lambda>t. has_eq t \<and> arg_key t = k) (rev (split post)) of
               Some t \<Rightarrow> Some (strip quotes (arg_raw_value t))
             | None \<Rightarrow> Some (strip quotes (q # v1)))"
    using a by (intro quoted_key_lookup) simp_all
  ultimately show "parse_args (pre @ k @ CHR ''='' # q # v1 @ c # post) k
      = Some (strip quotes (q # v1))"
    by simp
next
  assume "is_space d \<and> CHR ''='' \<notin> set t \<and> (b = [] \<or> is_space (hd b))"
  then show "parse_args (a @ d # t @ b) = parse_args (a @ d # b)"
    by (intro token_without_eq_dropped) simp_all
qed

theorem quoted_value_stops_at_space_witness:
  "parse_args (''content='' @ [CHR 0x22] @ ''hello world'' @ [CHR 0x22]) = [''content'' \<mapsto> ''hello'']
   \<and> parse_args (''command='' @ [CHR 0x22] @ ''exit 7'' @ [CHR 0x22]) ''command'' = Some ''exit''
   \<and> filter is_space ''exit'' = []
   \<and> parse_args (''path=x '' @ ''content'' @ CHR ''='' # CHR 0x22 # ''hello'' @ CHR '' '' # ''world'' @ [CHR 0x22]
                  @ '' mode=w'') ''content'' = Some ''hello''
   \<and> parse_args (''content'' @ CHR ''='' # CHR 0x22 # ''a'' @ CHR '' '' # ''content=b'' @ [CHR 0x22])
        ''content'' = Some ''b''
   \<and> parse_args ((''content='' @ [CHR 0x22] @ ''hello'') @ CHR '' '' # (''world'' @ [CHR 0x22]) @ '' mode=w'')
       = parse_args ((''content='' @ [CHR 0x22] @ ''hello'') @ CHR '' '' # '' mode=w'')"
proof -
  have qq: "CHR 0x22 \<in> set quotes" by (simp add: quotes_def)
  have sp: "is_space (CHR '' '')" by (simp add: is_space_def)
  have ke: "CHR ''='' \<notin> set ''content''" by simp
  have 1: "parse_args (''content'' @ CHR ''='' # CHR 0x22 # ''hello'' @ CHR '' '' # ''world'' @ [CHR 0x22])
      = [''content'' \<mapsto> strip quotes (CHR 0x22 # ''hello'')]"
    by (rule quoted_value_stops_at_space [where q = "CHR 0x22" and c = "CHR '' ''"
          and k = "''content''" and ?v1.0 = "''hello''" and rest = "''world''",
          THEN conjunct2, THEN conjunct1, THEN mp])
      (simp add: quotes_def is_space_def)
  have 2: "parse_args (''command='' @ [CHR 0x22] @ ''exit 7'' @ [CHR 0x22]) ''command'' = Some ''exit''"
    by (simp add: args_eval)
  have 3: "\<forall>c\<in>set ''exit''. \<not> is_space c"
    by (rule quoted_value_stops_at_space [where s = "''command='' @ [CHR 0x22] @ ''exit 7'' @ [CHR 0x22]"
        and key = "''command''", THEN conjunct1, THEN spec, THEN mp, OF 2])
  from 3 have 4: "filter is_space ''exit'' = []" by (simp add: filter_empty_conv)
  have 5: "parse_args (''path=x '' @ ''content'' @ CHR ''='' # CHR 0x22 # ''hello'' @ CHR '' '' # ''world'' @ [CHR 0x22]
                  @ '' mode=w'') ''content'' = Some (strip quotes (CHR 0x22 # ''hello''))"
    by (rule quoted_value_stops_at_space [where q = "CHR 0x22" and c = "CHR '' ''"
          and k = "''content''" and ?v1.0 = "''hello''" and pre = "''path=x ''"
          and post = "''world'' @ [CHR 0x22] @ '' mode=w''",
          THEN conjunct2, THEN conjunct2, THEN conjunct2, THEN conjunct1, THEN mp])
      (simp add: quotes_def is_space_def split_def has_eq_def arg_key_def)
  have 6: "parse_args (''content'' @ CHR ''='' # CHR 0x22 # ''a'' @ CHR '' '' # ''content=b'' @ [CHR 0x22])
        ''content'' =
      (case find (\<lambda>t. has_eq t \<and> arg_key t = ''content'') (rev (split (''content=b'' @ [CHR 0x22]))) of
               Some t \<Rightarrow> Some (strip quotes (arg_raw_value t))
             | None \<Rightarrow> Some (strip quotes (CHR 0x22 # ''a'')))"
    using quoted_value_stops_at_space [where q = "CHR 0x22" and c = "CHR '' ''"
          and k = "''content''" and ?v1.0 = "''a''" and pre = "[]"
          and post = "''content=b'' @ [CHR 0x22]",
          THEN conjunct2, THEN conjunct2, THEN conjunct1, THEN mp, THEN conjunct2]
    by (simp add: quotes_def is_space_def)
  have 7: "parse_args ((''content='' @ [CHR 0x22] @ ''hello'') @ CHR '' '' # (''world'' @ [CHR 0x22]) @ '' mode=w'')
       = parse_args ((''content='' @ [CHR 0x22] @ ''hello'') @ CHR '' '' # '' mode=w'')"
    by (rule quoted_value_stops_at_space [where d = "CHR '' ''" and t = "''world'' @ [CHR 0x22]"
          and b = "'' mode=w''" and a = "''content='' @ [CHR 0x22] @ ''hello''",
          THEN conjunct2, THEN conjunct2, THEN conjunct2, THEN conjunct2, THEN mp])
      (simp add: is_space_def)
  have w6: "parse_args (''content'' @ CHR ''='' # CHR 0x22 # ''a'' @ CHR '' '' # ''content=b'' @ [CHR 0x22])
        ''content'' = Some ''b''"
    unfolding 6
    by (simp add: split_def is_space_def has_eq_def arg_key_def arg_raw_value_def strip_def quotes_def)
  have w1: "parse_args (''content='' @ [CHR 0x22] @ ''hello world'' @ [CHR 0x22]) = [''content'' \<mapsto> ''hello'']"
    using 1 by (simp add: strip_def quotes_def)
  have w5: "parse_args (''path=x '' @ ''content'' @ CHR ''='' # CHR 0x22 # ''hello'' @ CHR '' '' # ''world'' @ [CHR 0x22]
                  @ '' mode=w'') ''content'' = Some ''hello''"
    using 5 by (simp add: strip_def quotes_def)
  show ?thesis by (intro conjI w1 2 4 w5 w6 7)
qed

text \<open>
  The claim as first stated fails where the rest of the quoted value holds an \<open>=\<close>: in
  \<open>content="a b=c"\<close> the second token is not dropped but read as the pair \<open>b\<close>, \<open>c\<close>, and
  in \<open>content="a content=b"\<close> it even replaces the value of the key.
\<close>

theorem quoted_value_counterexample:
  "split (''content='' @ [CHR 0x22] @ ''a b=c'' @ [CHR 0x22])
     = [''content='' @ [CHR 0x22] @ ''a'', ''b=c'' @ [CHR 0x22]]
   \<and> has_eq (''b=c'' @ [CHR 0x22])
   \<and> parse_args (''content='' @ [CHR 0x22] @ ''a b=c'' @ [CHR 0x22]) ''b'' = Some ''c''
   \<and> parse_args (''content='' @ [CHR 0x22] @ ''a content=b'' @ [CHR 0x22]) ''content'' = Some ''b''"
  by (simp add: args_eval)

section \<open>Tool executor: faults and missing arguments\<close>

lemmas tool_eval = execute_tool_def tool_body_def tool_boundary_def and_then_def get_arg_def
  is_Exception_def analyze_code_content_def

text \<open>
  Claim C8. When the required argument is absent from the parsed arguments, each of the
  four tools returns, as its result string and without touching the world, the message
  that names the parameter: \<open>path\<close> for \<open>read_file\<close> and \<open>write_file\<close>, \<open>command\<close> for
  \<open>execute_command\<close>, \<open>code\<close> for \<open>analyze_code\<close>.
\<close>

theorem missing_argument_named:
  "(parse_args a ''path'' = None \<longrightarrow>
      execute_tool os ''read_file'' a w = (Inr ''Error: path parameter required'', w))
   \<and> (parse_args a ''path'' = None \<longrightarrow>
      execute_tool os ''write_file'' a w = (Inr ''Error: path parameter required'', w))
   \<and> (parse_args a ''command'' = None \<longrightarrow>
      execute_tool os ''execute_command'' a w = (Inr ''Error: command parameter required'', w))
   \<and> (parse_args a ''code'' = None \<longrightarrow>
      execute_tool os ''analyze_code'' a w = (Inr ''Error: code parameter required'', w))"
  by (simp add: execute_tool_def tool_body_def tool_boundary_def get_arg_def)

theorem missing_argument_named_witness:
  "execute_tool sample_os ''read_file'' ''file=a.py'' [] = (Inr ''Error: path parameter required'', [])
   \<and> execute_tool sample_os ''write_file'' ''content=x'' [] = (Inr ''Error: path parameter required'', [])
   \<and> execute_tool sample_os ''execute_command'' '''' [] = (Inr ''Error: command parameter required'', [])
   \<and> execute_tool sample_os ''analyze_code'' ''pass'' [] = (Inr ''Error: code parameter required'', [])"
proof -
  have 1: "parse_args ''file=a.py'' ''path'' = None" by (simp add: args_eval)
  have 2: "parse_args ''content=x'' ''path'' = None" by (simp add: args_eval)
  have 3: "parse_args '''' ''command'' = None" by (simp add: args_eval)
  have 4: "parse_args ''pass'' ''code'' = None" by (simp add: args_eval)
  show ?thesis
    using 1 2 3 4
      missing_argument_named [of "''file=a.py''" sample_os "[]"]
      missing_argument_named [of "''content=x''" sample_os "[]"]
      missing_argument_named [of "''''" sample_os "[]"]
      missing_argument_named [of "''pass''" sample_os "[]"]
    by simp
qed

lemma tool_body_raises:
  "faults_are_Exceptions os \<Longrightarrow> fst (tool_body os n args w) = Inl e \<Longrightarrow> is_Exception e"
  unfolding tool_body_def Let_def and_then_def faults_are_Exceptions_def analyze_code_content_def
  by (auto split: if_splits prod.splits sum.splits) (metis fst_conv)+


lemma execute_tool_escape:
  "fst (execute_tool os n a w) = Inl e \<Longrightarrow> \<not> is_Exception e"
  unfolding execute_tool_def tool_boundary_def
  by (auto split: prod.splits sum.splits if_splits)

lemma execute_tool_string:
  assumes "faults_are_Exceptions os"
  shows "\<exists>r. fst (execute_tool os n a w) = Inr r"
proof (cases "tool_body os n (parse_args a) w")
  case (Pair x w')
  show ?thesis
  proof (cases x)
    case (Inl e)
    then have "is_Exception e"
      using tool_body_raises [OF assms, of n "parse_args a" w e] Pair by simp
    then show ?thesis using Pair Inl by (simp add: execute_tool_def tool_boundary_def)
  next
    case (Inr r)
    then show ?thesis using Pair by (simp add: execute_tool_def tool_boundary_def)
  qed
qed

text \<open>
  Claim C1. For every tool name and argument text the executor returns a string whenever
  the environment raises instances of \<open>Exception\<close> only; whatever the environment does,
  no instance of \<open>Exception\<close> leaves the executor. \<open>execute_command\<close> runs the command
  with a timeout of 30 seconds; when the command completes, the result is the report of
  exit code, standard output and standard error, and when the timeout expires, the
  result is the tool-error string made from the exception. Every fault is rendered as
  an error string: an exception raised while reading or writing the file, running the
  command or listing the directory gives \<open>Tool error:\<close> followed by its text, and an
  exception of the parser gives \<open>Syntax Error:\<close>, or \<open>Analysis Error:\<close> when it is no
  syntax error, followed by its text. Without a fault, writing a file, listing a
  directory and analysing a text return the confirmation, the joined entries and the
  report.
\<close>

theorem execute_tool_returns_string:
  "(faults_are_Exceptions os \<longrightarrow> (\<exists>r. fst (execute_tool os tool_name args_str w) = Inr r))
   \<and> (\<forall>e. fst (execute_tool os tool_name args_str w) = Inl e \<longrightarrow> \<not> is_Exception e)
   \<and> (parse_args args_str ''command'' = Some command \<and> command \<noteq> []
        \<and> run_shell os command 30 w = (Inr result, w') \<longrightarrow>
      execute_tool os ''execute_command'' args_str w =
        (Inr (''Exit code: '' @ str_int (returncode result)
              @ ''\<newline>Output: '' @ stdout result
              @ ''\<newline>Error: '' @ stderr result), w'))
   \<and> (parse_args args_str ''command'' = Some command \<and> command \<noteq> []
        \<and> run_shell os command 30 w = (Inl (PyExn TimeoutExpired msg), w') \<longrightarrow>
      execute_tool os ''execute_command'' args_str w = (Inr (''Tool error: '' @ msg), w'))
   \<and> (parse_args args_str ''command'' = Some command \<and> command \<noteq> []
        \<and> run_shell os command 30 w = (Inl fault, w') \<and> is_Exception fault \<longrightarrow>
      execute_tool os ''execute_command'' args_str w = (Inr (''Tool error: '' @ exn_str fault), w'))
   \<and> (parse_args args_str ''path'' = Some path \<and> path \<noteq> []
        \<and> read_text os path w = (Inl fault, w') \<and> is_Exception fault \<longrightarrow>
      execute_tool os ''read_file'' args_str w = (Inr (''Tool error: '' @ exn_str fault), w'))
   \<and> (parse_args args_str ''path'' = Some path \<and> path \<noteq> []
        \<and> write_text os path (case parse_args args_str ''content'' of Some t \<Rightarrow> t | None \<Rightarrow> []) w
            = (Inl fault, w')
        \<and> is_Exception fault \<longrightarrow>
      execute_tool os ''write_file'' args_str w = (Inr (''Tool error: '' @ exn_str fault), w'))
   \<and> (parse_args args_str ''path'' = Some path \<and> path \<noteq> []
        \<and> write_text os path (case parse_args args_str ''content'' of Some t \<Rightarrow> t | None \<Rightarrow> []) w
            = (Inr (), w') \<longrightarrow>
      execute_tool os ''write_file'' args_str w = (Inr (''File written: '' @ path), w'))
   \<and> (listdir os (case parse_args args_str ''path'' of Some d \<Rightarrow> d | None \<Rightarrow> ''.'') w
          = (Inl fault, w')
        \<and> is_Exception fault \<longrightarrow>
      execute_tool os ''list_files'' args_str w = (Inr (''Tool error: '' @ exn_str fault), w'))
   \<and> (listdir os (case parse_args args_str ''path'' of Some d \<Rightarrow> d | None \<Rightarrow> ''.'') w
          = (Inr entries, w') \<longrightarrow>
      execute_tool os ''list_files'' args_str w = (Inr (join ''\<newline>'' entries), w'))
   \<and> (parse_args args_str ''code'' = Some code \<and> code \<noteq> []
        \<and> ast_parse os code = Inl fault \<and> exn_class fault = SyntaxError \<longrightarrow>
      execute_tool os ''analyze_code'' args_str w = (Inr (''Syntax Error: '' @ exn_str fault), w))
   \<and> (parse_args args_str ''code'' = Some code \<and> code \<noteq> []
        \<and> ast_parse os code = Inl fault \<and> exn_class fault \<noteq> SyntaxError
        \<and> is_Exception fault \<longrightarrow>
      execute_tool os ''analyze_code'' args_str w = (Inr (''Analysis Error: '' @ exn_str fault), w))
   \<and> (parse_args args_str ''code'' = Some code \<and> code \<noteq> []
        \<and> ast_parse os code = Inr tree \<longrightarrow>
      execute_tool os ''analyze_code'' args_str w = (Inr (report code (collect tree)), w))"
proof (intro conjI impI allI)
  assume "faults_are_Exceptions os"
  then show "\<exists>r. fst (execute_tool os tool_name args_str w) = Inr r"
    by (rule execute_tool_string)
next
  fix e assume "fst (execute_tool os tool_name args_str w) = Inl e"
  then show "\<not> is_Exception e" by (rule execute_tool_escape)
next
  assume "parse_args args_str ''command'' = Some command \<and> command \<noteq> []
        \<and> run_shell os command 30 w = (Inr result, w')"
  then show "execute_tool os ''execute_command'' args_str w =
        (Inr (''Exit code: '' @ str_int (returncode result)
              @ ''\<newline>Output: '' @ stdout result
              @ ''\<newline>Error: '' @ stderr result), w')"
    by (simp add: execute_tool_def tool_body_def tool_boundary_def get_arg_def and_then_def)
next
  assume "parse_args args_str ''command'' = Some command \<and> command \<noteq> []
        \<and> run_shell os command 30 w = (Inl (PyExn TimeoutExpired msg), w')"
  then show "execute_tool os ''execute_command'' args_str w = (Inr (''Tool error: '' @ msg), w')"
    by (simp add: execute_tool_def tool_body_def tool_boundary_def get_arg_def and_then_def
        is_Exception_def)
next
  assume "parse_args args_str ''command'' = Some command \<and> command \<noteq> []
        \<and> run_shell os command 30 w = (Inl fault, w') \<and> is_Exception fault"
  then show "execute_tool os ''execute_command'' args_str w
      = (Inr (''Tool error: '' @ exn_str fault), w')"
    by (simp add: execute_tool_def tool_body_def tool_boundary_def get_arg_def and_then_def)
next
  assume "parse_args args_str ''path'' = Some path \<and> path \<noteq> []
        \<and> read_text os path w = (Inl fault, w') \<and> is_Exception fault"
  then show "execute_tool os ''read_file'' args_str w = (Inr (''Tool error: '' @ exn_str fault), w')"
    by (simp add: execute_tool_def tool_body_def tool_boundary_def get_arg_def)
next
  assume "parse_args args_str ''path'' = Some path \<and> path \<noteq> []
        \<and> write_text os path (case parse_args args_str ''content'' of Some t \<Rightarrow> t | None \<Rightarrow> []) w
            = (Inl fault, w')
        \<and> is_Exception fault"
  then show "execute_tool os ''write_file'' args_str w = (Inr (''Tool error: '' @ exn_str fault), w')"
    by (simp add: execute_tool_def tool_body_def tool_boundary_def get_arg_def and_then_def)
next
  assume "parse_args args_str ''path'' = Some path \<and> path \<noteq> []
        \<and> write_text os path (case parse_args args_str ''content'' of Some t \<Rightarrow> t | None \<Rightarrow> []) w
            = (Inr (), w')"
  then show "execute_tool os ''write_file'' args_str w = (Inr (''File written: '' @ path), w')"
    by (simp add: execute_tool_def tool_body_def tool_boundary_def get_arg_def and_then_def)
next
  assume "listdir os (case parse_args args_str ''path'' of Some d \<Rightarrow> d | None \<Rightarrow> ''.'') w
          = (Inl fault, w')
        \<and> is_Exception fault"
  then show "execute_tool os ''list_files'' args_str w = (Inr (''Tool error: '' @ exn_str fault), w')"
    by (simp add: execute_tool_def tool_body_def tool_boundary_def get_arg_def and_then_def)
next
  assume "listdir os (case parse_args args_str ''path'' of Some d \<Rightarrow> d | None \<Rightarrow> ''.'') w
          = (Inr entries, w')"
  then show "execute_tool os ''list_files'' args_str w = (Inr (join ''\<newline>'' entries), w')"
    by (simp add: execute_tool_def tool_body_def tool_boundary_def get_arg_def and_then_def)
next
  assume "parse_args args_str ''code'' = Some code \<and> code \<noteq> []
        \<and> ast_parse os code = Inl fault \<and> exn_class fault = SyntaxError"
  then show "execute_tool os ''analyze_code'' args_str w
      = (Inr (''Syntax Error: '' @ exn_str fault), w)"
    by (simp add: execute_tool_def tool_body_def tool_boundary_def get_arg_def
        analyze_code_content_def)
next
  assume "parse_args args_str ''code'' = Some code \<and> code \<noteq> []
        \<and> ast_parse os code = Inl fault \<and> exn_class fault \<noteq> SyntaxError
        \<and> is_Exception fault"
  then show "execute_tool os ''analyze_code'' args_str w
      = (Inr (''Analysis Error: '' @ exn_str fault), w)"
    by (simp add: execute_tool_def tool_body_def tool_boundary_def get_arg_def
        analyze_code_content_def)
next
  assume "parse_args args_str ''code'' = Some code \<and> code \<noteq> []
        \<and> ast_parse os code = Inr tree"
  then show "execute_tool os ''analyze_code'' args_str w = (Inr (report code (collect tree)), w)"
    by (simp add: execute_tool_def tool_body_def tool_boundary_def get_arg_def
        analyze_code_content_def)
qed

lemma sample_os_faults: "faults_are_Exceptions sample_os"
  by (auto simp: faults_are_Exceptions_def sample_os_def sample_parse_def is_Exception_def
      split: option.splits if_splits)

theorem execute_tool_returns_string_witness:
  "fst (execute_tool sample_os ''read_file'' ''path=missing.txt'' []) =
     Inr (''Tool error: [Errno 2] No such file or directory: '' @ [CHR 0x27] @ ''missing.txt'' @ [CHR 0x27])
   \<and> execute_tool sample_os ''execute_command'' ''command=exit'' [] =
       (Inr ''Exit code: 7\<newline>Output: \<newline>Error: '', [])
   \<and> execute_tool sample_os ''execute_command'' ''command=yes'' [] =
       (Inr (''Tool error: Command '' @ [CHR 0x27] @ ''yes'' @ [CHR 0x27] @ '' timed out after 30 seconds''), [])
   \<and> execute_tool sample_os ''analyze_code'' ''code=def'' [] =
       (Inr (''Syntax Error: '' @ ''invalid syntax (<unknown>, line 1)''), [])
   \<and> execute_tool sample_os ''analyze_code'' ''code=pass'' [] = (Inr ''Lines of code: 1'', [])
   \<and> execute_tool sample_os ''write_file'' ''path=a.txt content=x'' [] =
       (Inr (''File written: '' @ ''a.txt''), [(''a.txt'', ''x'')])"
proof -
  define timeout_msg where "timeout_msg =
      ''Command '' @ [CHR 0x27] @ ''yes'' @ [CHR 0x27] @ '' timed out after 30 seconds''"
  define missing where "missing = PyExn OSError (''[Errno 2] No such file or directory: ''
      @ [CHR 0x27] @ ''missing.txt'' @ [CHR 0x27])"
  define bad where "bad = PyExn SyntaxError ''invalid syntax (<unknown>, line 1)''"
  have c1: "parse_args ''command=exit'' ''command'' = Some ''exit''" by (simp add: args_eval)
  have c2: "parse_args ''command=yes'' ''command'' = Some ''yes''" by (simp add: args_eval)
  have r1: "run_shell sample_os ''exit'' 30 [] = (Inr \<lparr>returncode = 7, stdout = [], stderr = []\<rparr>, [])"
    by (simp add: sample_os_def)
  have r2: "run_shell sample_os ''yes'' 30 [] = (Inl (PyExn TimeoutExpired timeout_msg), [])"
    by (simp add: sample_os_def timeout_msg_def)
  have ne: "''exit'' \<noteq> []" "''yes'' \<noteq> []" "''missing.txt'' \<noteq> []" "''def'' \<noteq> []"
    "''pass'' \<noteq> []" "''a.txt'' \<noteq> []"
    by simp_all
  obtain r where r: "fst (execute_tool sample_os ''read_file'' ''path=missing.txt'' []) = Inr r"
    using execute_tool_returns_string [where os = sample_os and tool_name = "''read_file''"
        and args_str = "''path=missing.txt''" and w = "[]", THEN conjunct1, THEN mp,
        OF sample_os_faults]
    by (rule exE)
  have p1: "parse_args ''path=missing.txt'' ''path'' = Some ''missing.txt''"
    by (simp add: args_eval)
  have f1: "read_text sample_os ''missing.txt'' [] = (Inl missing, [])"
    by (simp add: sample_os_def missing_def)
  have e1: "is_Exception missing" by (simp add: is_Exception_def missing_def)
  have "execute_tool sample_os ''read_file'' ''path=missing.txt'' []
      = (Inr (''Tool error: '' @ exn_str missing), [])"
    by (rule execute_tool_returns_string [where os = sample_os and args_str = "''path=missing.txt''"
          and w = "[]" and path = "''missing.txt''" and fault = missing and w' = "[]",
          THEN conjunct2, THEN conjunct2, THEN conjunct2, THEN conjunct2, THEN conjunct2,
          THEN conjunct1, THEN mp])
      (intro conjI p1 ne f1 e1)
  then have 1: "fst (execute_tool sample_os ''read_file'' ''path=missing.txt'' []) =
     Inr (''Tool error: [Errno 2] No such file or directory: '' @ [CHR 0x27] @ ''missing.txt'' @ [CHR 0x27])"
    by (simp add: missing_def)
  have "execute_tool sample_os ''execute_command'' ''command=exit'' [] =
        (Inr (''Exit code: '' @ str_int (returncode \<lparr>returncode = 7, stdout = [], stderr = []\<rparr>)
              @ ''\<newline>Output: '' @ stdout \<lparr>returncode = 7, stdout = [], stderr = []\<rparr>
              @ ''\<newline>Error: '' @ stderr \<lparr>returncode = 7, stdout = [], stderr = []\<rparr>), [])"
    by (rule execute_tool_returns_string [where os = sample_os and args_str = "''command=exit''"
          and w = "[]" and command = "''exit''" and w' = "[]"
          and result = "\<lparr>returncode = 7, stdout = [], stderr = []\<rparr>",
          THEN conjunct2, THEN conjunct2, THEN conjunct1, THEN mp])
      (intro conjI c1 ne r1)
  then have 2: "execute_tool sample_os ''execute_command'' ''command=exit'' [] =
       (Inr ''Exit code: 7\<newline>Output: \<newline>Error: '', [])"
    by (simp add: str_int_def)
  have "execute_tool sample_os ''execute_command'' ''command=yes'' [] =
       (Inr (''Tool error: '' @ timeout_msg), [])"
    by (rule execute_tool_returns_string [where os = sample_os and args_str = "''command=yes''"
          and w = "[]" and command = "''yes''" and w' = "[]" and msg = timeout_msg,
          THEN conjunct2, THEN conjunct2, THEN conjunct2, THEN conjunct1, THEN mp])
      (intro conjI c2 ne r2)
  then have 3: "execute_tool sample_os ''execute_command'' ''command=yes'' [] =
       (Inr (''Tool error: Command '' @ [CHR 0x27] @ ''yes'' @ [CHR 0x27] @ '' timed out after 30 seconds''), [])"
    by (simp add: timeout_msg_def)
  have p4: "parse_args ''code=def'' ''code'' = Some ''def''" by (simp add: args_eval)
  have f4: "ast_parse sample_os ''def'' = Inl bad"
    by (simp add: sample_os_def sample_parse_def three_lines_def nested_defs_def bad_def)
  have k4: "exn_class bad = SyntaxError" by (simp add: bad_def)
  have "execute_tool sample_os ''analyze_code'' ''code=def'' [] =
       (Inr (''Syntax Error: '' @ exn_str bad), [])"
    by (rule execute_tool_returns_string [where os = sample_os and args_str = "''code=def''"
          and w = "[]" and code = "''def''" and fault = bad,
          THEN conjunct2, THEN conjunct2, THEN conjunct2, THEN conjunct2, THEN conjunct2,
          THEN conjunct2, THEN conjunct2, THEN conjunct2, THEN conjunct2, THEN conjunct2,
          THEN conjunct1, THEN mp])
      (intro conjI p4 ne f4 k4)
  then have 4: "execute_tool sample_os ''analyze_code'' ''code=def'' [] =
       (Inr (''Syntax Error: '' @ ''invalid syntax (<unknown>, line 1)''), [])"
    by (simp add: bad_def)
  have p5: "parse_args ''code=pass'' ''code'' = Some ''pass''" by (simp add: args_eval)
  have f5: "ast_parse sample_os ''pass'' = Inr (Node (Other ''Module'') [Node (Other ''Pass'') []])"
    by (simp add: sample_os_def sample_parse_def three_lines_def nested_defs_def)
  have "execute_tool sample_os ''analyze_code'' ''code=pass'' [] =
       (Inr (report ''pass'' (collect (Node (Other ''Module'') [Node (Other ''Pass'') []]))), [])"
    by (rule execute_tool_returns_string [where os = sample_os and args_str = "''code=pass''"
          and w = "[]" and code = "''pass''"
          and tree = "Node (Other ''Module'') [Node (Other ''Pass'') []]",
          THEN conjunct2, THEN conjunct2, THEN conjunct2, THEN conjunct2, THEN conjunct2,
          THEN conjunct2, THEN conjunct2, THEN conjunct2, THEN conjunct2, THEN conjunct2,
          THEN conjunct2, THEN conjunct2, THEN mp])
      (intro conjI p5 ne f5)
  then have 5: "execute_tool sample_os ''analyze_code'' ''code=pass'' [] = (Inr ''Lines of code: 1'', [])"
    by (simp add: report_def collect_def walk_def visit_def split_def is_space_def)
  have p6: "parse_args ''path=a.txt content=x'' ''path'' = Some ''a.txt''"
    and c6: "parse_args ''path=a.txt content=x'' ''content'' = Some ''x''"
    by (simp_all add: args_eval)
  have f6: "write_text sample_os ''a.txt''
      (case parse_args ''path=a.txt content=x'' ''content'' of Some t \<Rightarrow> t | None \<Rightarrow> []) []
      = (Inr (), [(''a.txt'', ''x'')])"
    unfolding c6 by (simp add: sample_os_def)
  have 6: "execute_tool sample_os ''write_file'' ''path=a.txt content=x'' [] =
       (Inr (''File written: '' @ ''a.txt''), [(''a.txt'', ''x'')])"
    by (rule execute_tool_returns_string [where os = sample_os
          and args_str = "''path=a.txt content=x''" and w = "[]" and path = "''a.txt''"
          and w' = "[(''a.txt'', ''x'')]",
          THEN conjunct2, THEN conjunct2, THEN conjunct2, THEN conjunct2, THEN conjunct2,
          THEN conjunct2, THEN conjunct2, THEN conjunct1, THEN mp])
      (intro conjI p6 ne f6)
  show ?thesis by (intro conjI 1 2 3 4 5 6)
qed

section \<open>Tool-call parser: matches\<close>

lemmas parser_eval = match_at_def upper_def upper_char_def is_space_def is_word_def

lemma space_not_word: "is_space c \<Longrightarrow> \<not> is_word c"
  unfolding is_space_def by (auto simp: is_word_def)

lemma word_not_space: "is_word c \<Longrightarrow> \<not> is_space c"
  using space_not_word by blast

lemma upper_char_cases:
  assumes "upper_char a = u"
  shows "a = u \<or> (a, u) \<in> set (zip ''abcdefghijklmnopqrstuvwxyz'' ''ABCDEFGHIJKLMNOPQRSTUVWXYZ'')"
proof -
  define tbl where "tbl = zip ''abcdefghijklmnopqrstuvwxyz'' ''ABCDEFGHIJKLMNOPQRSTUVWXYZ''"
  have u: "upper_char a = (case map_of tbl a of Some u \<Rightarrow> u | None \<Rightarrow> a)"
    unfolding upper_char_def tbl_def by (rule refl)
  have "a = u \<or> (a, u) \<in> set tbl"
  proof (cases "map_of tbl a")
    case None
    then show ?thesis using u assms by simp
  next
    case (Some v)
    then have "(a, v) \<in> set tbl" by (rule map_of_SomeD)
    then show ?thesis using u assms Some by simp
  qed
  then show ?thesis unfolding tbl_def by assumption
qed

lemma upper_char_marker:
  "upper_char a = CHR ''T'' \<Longrightarrow> a \<in> set ''Tt''"
  "upper_char a = CHR ''O'' \<Longrightarrow> a \<in> set ''Oo''"
  "upper_char a = CHR ''L'' \<Longrightarrow> a \<in> set ''Ll''"
  "upper_char a = CHR '':'' \<Longrightarrow> a = CHR '':''"
  using upper_char_cases [of a "CHR ''T''"] upper_char_cases [of a "CHR ''O''"]
    upper_char_cases [of a "CHR ''L''"] upper_char_cases [of a "CHR '':''"]
  by auto

lemma five_chars:
  "5 \<le> length s \<Longrightarrow> \<exists>a b c d e rest. s = a # b # c # d # e # rest"
  by (auto simp: eval_nat_numeral Suc_le_length_iff)

lemma marker_from_upper:
  assumes "upper (take 5 s) = ''TOOL:''"
  shows "starts_with_marker s"
proof -
  from assms have "length (upper (take 5 s)) = 5" by simp
  then have "5 \<le> length s" by (simp add: upper_def)
  then obtain a b c d e rest where s: "s = a # b # c # d # e # rest"
    using five_chars by blast
  from assms have "upper_char a = CHR ''T''" "upper_char b = CHR ''O''" "upper_char c = CHR ''O''"
    "upper_char d = CHR ''L''" "upper_char e = CHR '':''"
    unfolding s upper_def by simp_all
  then have "a \<in> set ''Tt''" "b \<in> set ''Oo''" "c \<in> set ''Oo''" "d \<in> set ''Ll''" "e = CHR '':''"
    using upper_char_marker by blast+
  then show ?thesis unfolding s by simp
qed

lemma findall_no_marker: "\<not> mentions_marker s \<Longrightarrow> findall s = []"
proof (induction s)
  case Nil
  then show ?case by simp
next
  case (Cons c cs)
  have "\<not> starts_with_marker (c # cs)" and rest: "\<not> mentions_marker cs"
    using Cons.prems by (simp_all add: mentions_marker_def)
  then have m: "match_at (c # cs) = None"
    using marker_from_upper [of "c # cs"] unfolding match_at_def by auto
  have "findall cs = []" using rest by (rule Cons.IH)
  then show ?case using m by simp
qed

lemma findall_one_call:
  assumes m: "upper m = ''TOOL:''" and n: "name \<noteq> []" "\<forall>c\<in>set name. is_word c"
    and a: "\<forall>c\<in>set args. c \<noteq> CHR 0x0A" "args = [] \<or> \<not> is_space (hd args)"
  shows "findall (m @ '' '' @ name @ '' '' @ args) = [(name, args)]"
proof -
  define rest where "rest = '' '' @ name @ '' '' @ args"
  from m have "length (upper m) = 5" by simp
  then have len: "length m = 5" by (simp add: upper_def)
  then obtain c cs where cs: "m @ rest = c # cs" by (cases m) auto
  have t5: "take 5 (m @ rest) = m" and d5: "drop 5 (m @ rest) = rest" using len by auto
  obtain h t where name: "name = h # t" using n(1) by (cases name) auto
  have h: "\<not> is_space h" using n(2) name word_not_space by auto
  have sp: "is_space (CHR '' '')" by (simp add: is_space_def)
  have r1: "dropWhile is_space rest = name @ '' '' @ args"
    using h sp by (simp add: rest_def name)
  have nw: "\<not> is_word (CHR '' '')" using sp space_not_word by blast
  have tw: "takeWhile is_word (name @ '' '' @ args) = name"
    using n(2) nw by (simp add: takeWhile_append2)
  have dw: "dropWhile is_word (name @ '' '' @ args) = '' '' @ args"
    using n(2) nw by (simp add: dropWhile_append2)
  have r2: "dropWhile is_space ('' '' @ args) = args"
    using a(2) sp by (cases args) auto
  have l1: "takeWhile (\<lambda>c. c \<noteq> CHR 0x0A) args = args"
    using a(1) by (simp add: takeWhile_eq_all_conv)
  have l2: "dropWhile (\<lambda>c. c \<noteq> CHR 0x0A) args = []"
    using a(1) by (simp add: dropWhile_eq_Nil_conv)
  have "match_at (m @ rest) = Some ((name, args), [])"
    unfolding match_at_def t5 d5 Let_def r1 tw dw r2 l1 l2 using m n(1) by simp
  then have "match_at (c # cs) = Some ((name, args), [])" by (simp only: cs)
  then have "findall (c # cs) = [(name, args)]" by simp
  then show ?thesis unfolding rest_def cs [symmetric] by assumption
qed

section \<open>Tool calls: names, lines and files\<close>

text \<open>
  Claim C4, as amended. The marker \<open>TOOL:\<close> is accepted in either letter case and the tool
  name is taken from the text as it is written. The executor compares the name with the
  five registered names exactly, so a name that is none of them, for instance a
  registered name in capitals, is not dispatched to a tool: it has the result
  \<open>Unknown tool:\<close> followed by the name as written, and the request reports that result.
\<close>

theorem tool_name_is_matched_exactly:
  "(upper m = ''TOOL:'' \<and> name \<noteq> [] \<and> (\<forall>c\<in>set name. is_word c)
      \<and> (\<forall>c\<in>set args. c \<noteq> CHR 0x0A) \<and> (args = [] \<or> \<not> is_space (hd args)) \<longrightarrow>
      findall (m @ '' '' @ name @ '' '' @ args) = [(name, args)])
   \<and> (tool_name \<notin> set [''read_file'', ''write_file'', ''execute_command'', ''analyze_code'',
                          ''list_files''] \<longrightarrow>
      execute_tool os tool_name a w = (Inr (''Unknown tool: '' @ tool_name), w))
   \<and> (findall user_input = [(tool_name, a)]
      \<and> tool_name \<notin> set [''read_file'', ''write_file'', ''execute_command'', ''analyze_code'',
                           ''list_files'']
      \<and> console_print os (Text (''[cyan]Tool result ('' @ tool_name @ ''):[/cyan]'')) w = (Inr (), wa)
      \<and> console_print os (Text (''Unknown tool: '' @ tool_name)) wa = (Inr (), wb) \<longrightarrow>
      execute_tool_request os user_input w = (Inr [(tool_name, ''Unknown tool: '' @ tool_name)], wb))"
proof -
  have u: "tool_name \<notin> set [''read_file'', ''write_file'', ''execute_command'', ''analyze_code'',
                          ''list_files''] \<Longrightarrow>
      execute_tool os tool_name a w = (Inr (''Unknown tool: '' @ tool_name), w)"
    by (simp add: execute_tool_def tool_body_def tool_boundary_def)
  have 1: "upper m = ''TOOL:'' \<and> name \<noteq> [] \<and> (\<forall>c\<in>set name. is_word c)
      \<and> (\<forall>c\<in>set args. c \<noteq> CHR 0x0A) \<and> (args = [] \<or> \<not> is_space (hd args)) \<longrightarrow>
      findall (m @ '' '' @ name @ '' '' @ args) = [(name, args)]"
  proof
    assume h: "upper m = ''TOOL:'' \<and> name \<noteq> [] \<and> (\<forall>c\<in>set name. is_word c)
      \<and> (\<forall>c\<in>set args. c \<noteq> CHR 0x0A) \<and> (args = [] \<or> \<not> is_space (hd args))"
    show "findall (m @ '' '' @ name @ '' '' @ args) = [(name, args)]"
      by (rule findall_one_call) (use h in simp_all)
  qed
  have 2: "tool_name \<notin> set [''read_file'', ''write_file'', ''execute_command'', ''analyze_code'',
                          ''list_files''] \<longrightarrow>
      execute_tool os tool_name a w = (Inr (''Unknown tool: '' @ tool_name), w)"
    using u by (rule impI)
  have 3: "findall user_input = [(tool_name, a)]
      \<and> tool_name \<notin> set [''read_file'', ''write_file'', ''execute_command'', ''analyze_code'',
                           ''list_files'']
      \<and> console_print os (Text (''[cyan]Tool result ('' @ tool_name @ ''):[/cyan]'')) w = (Inr (), wa)
      \<and> console_print os (Text (''Unknown tool: '' @ tool_name)) wa = (Inr (), wb) \<longrightarrow>
      execute_tool_request os user_input w = (Inr [(tool_name, ''Unknown tool: '' @ tool_name)], wb)"
  proof
    assume h: "findall user_input = [(tool_name, a)]
      \<and> tool_name \<notin> set [''read_file'', ''write_file'', ''execute_command'', ''analyze_code'',
                           ''list_files'']
      \<and> console_print os (Text (''[cyan]Tool result ('' @ tool_name @ ''):[/cyan]'')) w = (Inr (), wa)
      \<and> console_print os (Text (''Unknown tool: '' @ tool_name)) wa = (Inr (), wb)"
    then have e: "execute_tool os tool_name a w = (Inr (''Unknown tool: '' @ tool_name), w)"
      using u by blast
    from h have f: "findall user_input = [(tool_name, a)]"
      and p1: "console_print os (Text (''[cyan]Tool result ('' @ tool_name @ ''):[/cyan]'')) w = (Inr (), wa)"
      and p2: "console_print os (Text (''Unknown tool: '' @ tool_name)) wa = (Inr (), wb)"
      by blast+
    show "execute_tool_request os user_input w = (Inr [(tool_name, ''Unknown tool: '' @ tool_name)], wb)"
      unfolding execute_tool_request_def f using e p1 p2 by (simp add: and_then_def)
  qed
  show ?thesis by (intro conjI 1 2 3)
qed


theorem tool_name_is_matched_exactly_witness:
  "findall (''tool:'' @ '' '' @ ''Frobnicate'' @ '' '' @ ''now'') = [(''Frobnicate'', ''now'')]
   \<and> execute_tool sample_os ''Frobnicate'' ''now'' [] = (Inr (''Unknown tool: '' @ ''Frobnicate''), [])
   \<and> execute_tool_request sample_os (''tool:'' @ '' '' @ ''Frobnicate'' @ '' '' @ ''now'') []
       = (Inr [(''Frobnicate'', ''Unknown tool: '' @ ''Frobnicate'')], [])"
proof -
  note inst = tool_name_is_matched_exactly [where m = "''tool:''" and name = "''Frobnicate''"
      and args = "''now''" and tool_name = "''Frobnicate''" and os = sample_os and a = "''now''"
      and w = "[]" and wa = "[]" and wb = "[]"
      and user_input = "''tool:'' @ '' '' @ ''Frobnicate'' @ '' '' @ ''now''"]
  have h1: "upper ''tool:'' = ''TOOL:'' \<and> ''Frobnicate'' \<noteq> [] \<and> (\<forall>c\<in>set ''Frobnicate''. is_word c)
      \<and> (\<forall>c\<in>set ''now''. c \<noteq> CHR 0x0A) \<and> (''now'' = [] \<or> \<not> is_space (hd ''now''))"
    by (simp add: upper_def upper_char_def is_word_def is_space_def)
  have 1: "findall (''tool:'' @ '' '' @ ''Frobnicate'' @ '' '' @ ''now'') = [(''Frobnicate'', ''now'')]"
    by (rule inst [THEN conjunct1, THEN mp, OF h1])
  have h2: "''Frobnicate'' \<notin> set [''read_file'', ''write_file'', ''execute_command'',
      ''analyze_code'', ''list_files'']"
    by simp
  have 2: "execute_tool sample_os ''Frobnicate'' ''now'' [] = (Inr (''Unknown tool: '' @ ''Frobnicate''), [])"
    by (rule inst [THEN conjunct2, THEN conjunct1, THEN mp, OF h2])
  have p1: "console_print sample_os (Text (''[cyan]Tool result ('' @ ''Frobnicate'' @ ''):[/cyan]'')) []
      = (Inr (), [])"
    and p2: "console_print sample_os (Text (''Unknown tool: '' @ ''Frobnicate'')) [] = (Inr (), [])"
    by (simp_all add: sample_os_def)
  have 3: "execute_tool_request sample_os (''tool:'' @ '' '' @ ''Frobnicate'' @ '' '' @ ''now'') []
       = (Inr [(''Frobnicate'', ''Unknown tool: '' @ ''Frobnicate'')], [])"
    by (rule inst [THEN conjunct2, THEN conjunct2, THEN mp]) (intro conjI 1 h2 p1 p2)
  show ?thesis by (intro conjI 1 2 3)
qed

text \<open>
  The claim as first stated fails for \<open>TOOL: READ_FILE path=x\<close>: the name is extracted in
  capitals and, though the file \<open>x\<close> can be read, the result is that of an unknown tool.
\<close>

theorem tool_name_case_counterexample:
  "findall ''TOOL: READ_FILE path=x'' = [(''READ_FILE'', ''path=x'')]
   \<and> execute_tool sample_os ''READ_FILE'' ''path=x'' [(''x'', ''hello'')]
       = (Inr ''Unknown tool: READ_FILE'', [(''x'', ''hello'')])
   \<and> execute_tool sample_os ''read_file'' ''path=x'' [(''x'', ''hello'')]
       = (Inr ''hello'', [(''x'', ''hello'')])"
  by (simp add: parser_eval tool_eval args_eval sample_os_def)

text \<open>
  Claim C6, at the input that breaks it. The whitespace after the tool name may include
  the end of the line, so an invocation without arguments takes the whole next line as
  its arguments, and the invocation written on that line is lost; and a marker that
  ends its line takes the first word of the next line as its tool name.
\<close>

theorem findall_crosses_line_end:
  "findall ''TOOL: list_files\<newline>TOOL: read_file path=/tmp/x''
     = [(''list_files'', ''TOOL: read_file path=/tmp/x'')]
   \<and> findall ''TOOL:\<newline>note this'' = [(''note'', ''this'')]"
  by (simp add: parser_eval)

text \<open>
  Claim C7. A text that mentions the marker in no letter case has no invocations. The
  input \<open>TOOL: read_file path=/tmp/x.txt\<close> has exactly one, with name \<open>read_file\<close> and
  arguments \<open>path=/tmp/x.txt\<close>. \<open>read_file\<close> with a path that the environment can read
  returns the text read, unchanged; with a path whose reading raises an exception, as
  for a missing file, it returns the tool-error string and raises nothing.
\<close>

theorem read_file_round_trip:
  "(\<not> mentions_marker s \<longrightarrow> findall s = [])
   \<and> findall ''TOOL: read_file path=/tmp/x.txt'' = [(''read_file'', ''path=/tmp/x.txt'')]
   \<and> parse_args ''path=/tmp/x.txt'' ''path'' = Some ''/tmp/x.txt''
   \<and> (parse_args a ''path'' = Some p \<and> p \<noteq> [] \<and> read_text os p w = (Inr text, w') \<longrightarrow>
        execute_tool os ''read_file'' a w = (Inr text, w'))
   \<and> (parse_args a ''path'' = Some p \<and> p \<noteq> [] \<and> read_text os p w = (Inl e, w')
        \<and> is_Exception e \<longrightarrow>
        execute_tool os ''read_file'' a w = (Inr (''Tool error: '' @ exn_str e), w'))"
proof -
  have 1: "\<not> mentions_marker s \<longrightarrow> findall s = []" using findall_no_marker by blast
  have 2: "findall ''TOOL: read_file path=/tmp/x.txt'' = [(''read_file'', ''path=/tmp/x.txt'')]"
    by (simp add: parser_eval)
  have 3: "parse_args ''path=/tmp/x.txt'' ''path'' = Some ''/tmp/x.txt''"
    by (simp add: args_eval)
  have 4: "parse_args a ''path'' = Some p \<and> p \<noteq> [] \<and> read_text os p w = (Inr text, w') \<longrightarrow>
        execute_tool os ''read_file'' a w = (Inr text, w')"
    by (simp add: execute_tool_def tool_body_def tool_boundary_def get_arg_def)
  have 5: "parse_args a ''path'' = Some p \<and> p \<noteq> [] \<and> read_text os p w = (Inl e, w')
        \<and> is_Exception e \<longrightarrow>
        execute_tool os ''read_file'' a w = (Inr (''Tool error: '' @ exn_str e), w')"
    by (simp add: execute_tool_def tool_body_def tool_boundary_def get_arg_def)
  from 1 2 3 4 5 show ?thesis by blast
qed



theorem read_file_round_trip_witness:
  "findall ''please read my file'' = []
   \<and> execute_tool sample_os ''read_file'' ''path=/tmp/x.txt'' [(''/tmp/x.txt'', ''one\<newline>two\<newline>'')]
       = (Inr ''one\<newline>two\<newline>'', [(''/tmp/x.txt'', ''one\<newline>two\<newline>'')])
   \<and> execute_tool sample_os ''read_file'' ''path=/tmp/x.txt'' []
       = (Inr (''Tool error: '' @ ''[Errno 2] No such file or directory: ''
               @ [CHR 0x27] @ ''/tmp/x.txt'' @ [CHR 0x27]), [])"
proof -
  have m: "\<not> mentions_marker ''please read my file''"
    by (simp add: mentions_marker_def)
  have 1: "findall ''please read my file'' = []"
    by (rule read_file_round_trip [THEN conjunct1, THEN mp, OF m])
  have p: "parse_args ''path=/tmp/x.txt'' ''path'' = Some ''/tmp/x.txt''"
    by (simp add: args_eval)
  have r1: "read_text sample_os ''/tmp/x.txt'' [(''/tmp/x.txt'', ''one\<newline>two\<newline>'')]
      = (Inr ''one\<newline>two\<newline>'', [(''/tmp/x.txt'', ''one\<newline>two\<newline>'')])"
    by (simp add: sample_os_def)
  define e where "e = PyExn OSError (''[Errno 2] No such file or directory: ''
                             @ [CHR 0x27] @ ''/tmp/x.txt'' @ [CHR 0x27])"
  have r2: "read_text sample_os ''/tmp/x.txt'' [] = (Inl e, [])"
    by (simp add: sample_os_def e_def)
  have ex: "is_Exception e" by (simp add: is_Exception_def e_def)
  have ne: "''/tmp/x.txt'' \<noteq> []" by simp
  have 2: "execute_tool sample_os ''read_file'' ''path=/tmp/x.txt'' [(''/tmp/x.txt'', ''one\<newline>two\<newline>'')]
       = (Inr ''one\<newline>two\<newline>'', [(''/tmp/x.txt'', ''one\<newline>two\<newline>'')])"
    by (rule read_file_round_trip [where a = "''path=/tmp/x.txt''" and p = "''/tmp/x.txt''"
          and os = sample_os and w = "[(''/tmp/x.txt'', ''one\<newline>two\<newline>'')]",
          THEN conjunct2, THEN conjunct2, THEN conjunct2, THEN conjunct1, THEN mp])
      (intro conjI p ne r1)
  have "execute_tool sample_os ''read_file'' ''path=/tmp/x.txt'' []
       = (Inr (''Tool error: '' @ exn_str e), [])"
    by (rule read_file_round_trip [where a = "''path=/tmp/x.txt''" and p = "''/tmp/x.txt''"
          and os = sample_os and w = "[]" and e = e,
          THEN conjunct2, THEN conjunct2, THEN conjunct2, THEN conjunct2, THEN mp])
      (intro conjI p ne r2 ex)
  then have 3: "execute_tool sample_os ''read_file'' ''path=/tmp/x.txt'' []
       = (Inr (''Tool error: '' @ ''[Errno 2] No such file or directory: ''
               @ [CHR 0x27] @ ''/tmp/x.txt'' @ [CHR 0x27]), [])"
    unfolding e_def py_exn.sel by assumption
  show ?thesis by (intro conjI 1 2 3)
qed

section \<open>Context window\<close>

lemma insert_before_last: "insert_at (- 1) x (pre @ [u]) = pre @ [x, u]"
  by (simp add: insert_at_def Let_def)

lemma splice_before_last:
  "splice (pre @ [u]) es =
     pre @ concat (map (\<lambda>e. [\<lparr>role = ''user'', content = user e\<rparr>,
                               \<lparr>role = ''assistant'', content = assistant e\<rparr>]) es) @ [u]"
proof (induction es arbitrary: pre)
  case Nil
  then show ?case by simp
next
  case (Cons e es)
  have "splice (pre @ [u]) (e # es) =
      splice ((pre @ [\<lparr>role = ''user'', content = user e\<rparr>,
                       \<lparr>role = ''assistant'', content = assistant e\<rparr>]) @ [u]) es"
    using insert_before_last [of "\<lparr>role = ''user'', content = user e\<rparr>" pre u]
      insert_before_last [of "\<lparr>role = ''assistant'', content = assistant e\<rparr>"
        "pre @ [\<lparr>role = ''user'', content = user e\<rparr>]" u]
    by simp
  then show ?case unfolding Cons.IH by simp
qed

lemma build_messages_eq:
  "build_messages ctx history user_input =
     \<lparr>role = ''system'', content = JStr (get_system_prompt ctx)\<rparr>
     # concat (map (\<lambda>e. [\<lparr>role = ''user'', content = user e\<rparr>,
                           \<lparr>role = ''assistant'', content = assistant e\<rparr>])
         (drop (length history - 3) history))
     @ [\<lparr>role = ''user'', content = JStr user_input\<rparr>]"
proof (cases "history = []")
  case True
  then show ?thesis by (simp add: build_messages_def)
next
  case False
  then show ?thesis
    using splice_before_last [of "[\<lparr>role = ''system'', content = JStr (get_system_prompt ctx)\<rparr>]"
        "\<lparr>role = ''user'', content = JStr user_input\<rparr>" "last_n 3 history"]
    by (simp add: build_messages_def last_n_def)
qed

text \<open>
  Claim C2. The message list is: one system message, whose text is the prompt base
  followed, when there are context lines, by the heading and the first ten of them; then
  the user and assistant messages of the last three exchanges of the history, the
  oldest first; then the user message of the current turn. Of five exchanges the first
  two are left out; without history the list is the system and the user message.
\<close>

theorem build_messages_order:
  "get_system_prompt ctx =
     base_prompt @ (if ctx = [] then []
                    else ''\<newline>\<newline>Project context:\<newline>'' @ join ''\<newline>'' (take 10 ctx))
   \<and> build_messages ctx history user_input =
       \<lparr>role = ''system'', content = JStr (get_system_prompt ctx)\<rparr>
       # concat (map (\<lambda>e. [\<lparr>role = ''user'', content = user e\<rparr>,
                             \<lparr>role = ''assistant'', content = assistant e\<rparr>])
           (drop (length history - 3) history))
       @ [\<lparr>role = ''user'', content = JStr user_input\<rparr>]
   \<and> build_messages ctx [e1, e2, e3, e4, e5] user_input =
       [\<lparr>role = ''system'', content = JStr (get_system_prompt ctx)\<rparr>,
        \<lparr>role = ''user'', content = user e3\<rparr>, \<lparr>role = ''assistant'', content = assistant e3\<rparr>,
        \<lparr>role = ''user'', content = user e4\<rparr>, \<lparr>role = ''assistant'', content = assistant e4\<rparr>,
        \<lparr>role = ''user'', content = user e5\<rparr>, \<lparr>role = ''assistant'', content = assistant e5\<rparr>,
        \<lparr>role = ''user'', content = JStr user_input\<rparr>]
   \<and> build_messages ctx [] user_input =
       [\<lparr>role = ''system'', content = JStr (get_system_prompt ctx)\<rparr>,
        \<lparr>role = ''user'', content = JStr user_input\<rparr>]"
proof (intro conjI)
  show "get_system_prompt ctx =
     base_prompt @ (if ctx = [] then []
                    else ''\<newline>\<newline>Project context:\<newline>'' @ join ''\<newline>'' (take 10 ctx))"
    by (simp add: get_system_prompt_def)
  show "build_messages ctx history user_input =
       \<lparr>role = ''system'', content = JStr (get_system_prompt ctx)\<rparr>
       # concat (map (\<lambda>e. [\<lparr>role = ''user'', content = user e\<rparr>,
                             \<lparr>role = ''assistant'', content = assistant e\<rparr>])
           (drop (length history - 3) history))
       @ [\<lparr>role = ''user'', content = JStr user_input\<rparr>]"
    by (rule build_messages_eq)
  show "build_messages ctx [e1, e2, e3, e4, e5] user_input =
       [\<lparr>role = ''system'', content = JStr (get_system_prompt ctx)\<rparr>,
        \<lparr>role = ''user'', content = user e3\<rparr>, \<lparr>role = ''assistant'', content = assistant e3\<rparr>,
        \<lparr>role = ''user'', content = user e4\<rparr>, \<lparr>role = ''assistant'', content = assistant e4\<rparr>,
        \<lparr>role = ''user'', content = user e5\<rparr>, \<lparr>role = ''assistant'', content = assistant e5\<rparr>,
        \<lparr>role = ''user'', content = JStr user_input\<rparr>]"
    unfolding build_messages_eq by simp
  show "build_messages ctx [] user_input =
       [\<lparr>role = ''system'', content = JStr (get_system_prompt ctx)\<rparr>,
        \<lparr>role = ''user'', content = JStr user_input\<rparr>]"
    unfolding build_messages_eq by simp
qed

section \<open>Conversation turns and history\<close>

lemma process_without_reply:
  assumes "\<not> contains ''TOOL:'' (upper user_input)"
    and "send_to_model os (config sess)
           (build_messages (context_lines sess) (conversation_history sess) user_input) w = (r, wa)"
    and "case r of Inl e \<Rightarrow> True | Inr reply \<Rightarrow> \<not> truthy reply"
  shows "fst (snd (process_conversation os sess user_input w)) = sess"
proof (cases r)
  case (Inl e)
  then show ?thesis using assms(1,2) by (simp add: process_conversation_def)
next
  case (Inr reply)
  then have "\<not> truthy reply" using assms(3) by simp
  then show ?thesis using assms(1,2) Inr
    by (simp add: process_conversation_def split: prod.splits sum.splits)
qed

lemma process_tool_branch:
  assumes "contains ''TOOL:'' (upper user_input)"
  shows "fst (snd (process_conversation os sess user_input w)) = sess"
  using assms by (simp add: process_conversation_def split: prod.splits sum.splits)

lemma process_changes_only_with_reply:
  assumes "fst (snd (process_conversation os sess user_input w)) \<noteq> sess"
  shows "\<exists>reply wa ts.
           send_to_model os (config sess)
             (build_messages (context_lines sess) (conversation_history sess) user_input) w
             = (Inr reply, wa)
           \<and> truthy reply
           \<and> fst (snd (process_conversation os sess user_input w)) =
               sess\<lparr>conversation_history :=
                      conversation_history sess
                      @ [\<lparr>user = JStr user_input, assistant = reply, timestamp = ts\<rparr>]\<rparr>"
proof -
  have gate: "\<not> contains ''TOOL:'' (upper user_input)"
    using assms process_tool_branch [of user_input os sess w] by auto
  obtain r wa where s: "send_to_model os (config sess)
           (build_messages (context_lines sess) (conversation_history sess) user_input) w = (r, wa)"
    by (cases "send_to_model os (config sess)
           (build_messages (context_lines sess) (conversation_history sess) user_input) w") auto
  have "\<not> (case r of Inl e \<Rightarrow> True | Inr reply \<Rightarrow> \<not> truthy reply)"
    using assms process_without_reply [OF gate s] by auto
  then obtain reply where r: "r = Inr reply" and t: "truthy reply"
    by (cases r) auto
  obtain d wb where d: "display_response os reply wa = (d, wb)"
    by (cases "display_response os reply wa") auto
  show ?thesis
  proof (cases d)
    case (Inl e)
    then have "fst (snd (process_conversation os sess user_input w)) = sess"
      using gate s r t d by (simp add: process_conversation_def)
    then show ?thesis using assms by simp
  next
    case (Inr u)
    obtain ts wc where n: "now_iso os wb = (ts, wc)" by (cases "now_iso os wb") auto
    have "fst (snd (process_conversation os sess user_input w)) =
               sess\<lparr>conversation_history :=
                      conversation_history sess
                      @ [\<lparr>user = JStr user_input, assistant = reply, timestamp = ts\<rparr>]\<rparr>"
      using gate s r t d Inr n by (simp add: process_conversation_def)
    then show ?thesis using s r t by auto
  qed
qed

lemma send_fails:
  assumes cfg: "cfg = \<lparr>cfg_endpoint = Inr ep, cfg_temperature = Inr temp,
                      cfg_max_tokens = Inr mt, cfg_timeout = Inr t\<rparr>"
    and post: "http_post os ep \<lparr>model = ''gpt-3.5-turbo'', messages = msgs,
                               temperature = temp, max_tokens = mt\<rparr> t w = (outcome, wa)"
    and fail: "case outcome of
                 Inl e \<Rightarrow> exn_class e = RequestException
               | Inr resp \<Rightarrow>
                   status_code resp \<noteq> 200
                   \<or> (\<exists>kvs. json_body resp = Inr (JObj kvs)
                         \<and> (map_of kvs ''choices'' = None \<or> map_of kvs ''choices'' = Some (JArr [])))"
  shows "\<exists>r wb. send_to_model os cfg msgs w = (r, wb)
           \<and> (case r of Inl e \<Rightarrow> True | Inr reply \<Rightarrow> \<not> truthy reply)"
proof -
  have s: "send_to_model os cfg msgs w =
      on_request_exception os
        (and_then (outcome, wa) (\<lambda>resp w1.
            if status_code resp = 200 then
              and_then (json_body resp, w1) (\<lambda>data w2. (read_reply data, w2))
            else
              and_then (console_print os
                          (Text (''[red]Model error: HTTP '' @ str_int (status_code resp) @ ''[/red]'')) w1)
                (\<lambda>_ w2. (Inr JNull, w2))))"
    unfolding send_to_model_def cfg using post by (simp add: and_then_def)
  show ?thesis
  proof (cases outcome)
    case (Inl e)
    then have "exn_class e = RequestException" using fail by simp
    then show ?thesis unfolding s Inl
      by (auto simp: and_then_def on_request_exception_def truthy_def split: prod.splits sum.splits)
  next
    case (Inr resp)
    show ?thesis
    proof (cases "status_code resp = 200")
      case False
      then show ?thesis unfolding s Inr
        by (auto simp: and_then_def on_request_exception_def truthy_def split: prod.splits sum.splits)
    next
      case True
      then obtain kvs where b: "json_body resp = Inr (JObj kvs)"
        and c: "map_of kvs ''choices'' = None \<or> map_of kvs ''choices'' = Some (JArr [])"
        using fail Inr by auto
      have "read_reply (JObj kvs) = Inr JNull"
      proof (cases "map_of kvs ''choices''")
        case None
        then have "''choices'' \<notin> set (map fst kvs)" by (simp add: map_of_eq_None_iff)
        then show ?thesis by (simp add: read_reply_def py_in_def)
      next
        case (Some v)
        then have v: "v = JArr []" using c by simp
        have "''choices'' \<in> set (map fst kvs)"
          using Some by (metis map_of_eq_None_iff option.distinct(1) set_map)
        then show ?thesis using Some v
          by (simp add: read_reply_def py_in_def getitem_def truthy_def)
      qed
      then show ?thesis unfolding s Inr using True b
        by (simp add: and_then_def on_request_exception_def truthy_def)
    qed
  qed
qed


text \<open>
  Claim C9. In a conversational turn where the request reaches the endpoint and the
  round trip fails, by a \<open>RequestException\<close> (connection or timeout), by a status other
  than 200, or by a 200 response whose object has no \<open>choices\<close> or an empty \<open>choices\<close>
  array, the session, and with it the history, is exactly what it was. Whenever a turn
  changes the session at all, the endpoint call returned a non-empty reply and the
  change is one exchange appended with that reply; and a turn with such a reply, once
  displayed, appends it.
\<close>

theorem failed_round_trip_keeps_history:
  "(\<not> contains ''TOOL:'' (upper user_input)
      \<and> config sess = \<lparr>cfg_endpoint = Inr ep, cfg_temperature = Inr temp,
                       cfg_max_tokens = Inr mt, cfg_timeout = Inr t\<rparr>
      \<and> http_post os ep
           \<lparr>model = ''gpt-3.5-turbo'',
            messages = build_messages (context_lines sess) (conversation_history sess) user_input,
            temperature = temp, max_tokens = mt\<rparr> t w = (outcome, wa)
      \<and> (case outcome of
            Inl e \<Rightarrow> exn_class e = RequestException
          | Inr resp \<Rightarrow>
              status_code resp \<noteq> 200
              \<or> (\<exists>kvs. json_body resp = Inr (JObj kvs)
                    \<and> (map_of kvs ''choices'' = None \<or> map_of kvs ''choices'' = Some (JArr []))))
      \<longrightarrow> fst (snd (process_conversation os sess user_input w)) = sess)
   \<and> (fst (snd (process_conversation os sess user_input w)) \<noteq> sess \<longrightarrow>
        (\<exists>reply wb ts.
           send_to_model os (config sess)
             (build_messages (context_lines sess) (conversation_history sess) user_input) w
             = (Inr reply, wb)
           \<and> truthy reply
           \<and> fst (snd (process_conversation os sess user_input w)) =
               sess\<lparr>conversation_history :=
                      conversation_history sess
                      @ [\<lparr>user = JStr user_input, assistant = reply, timestamp = ts\<rparr>]\<rparr>))
   \<and> (\<not> contains ''TOOL:'' (upper user_input)
      \<and> send_to_model os (config sess)
           (build_messages (context_lines sess) (conversation_history sess) user_input) w
           = (Inr answer, wc)
      \<and> truthy answer
      \<and> display_response os answer wc = (Inr (), wd)
      \<and> now_iso os wd = (stamp, we)
      \<longrightarrow> process_conversation os sess user_input w =
            (None,
             sess\<lparr>conversation_history :=
                    conversation_history sess
                    @ [\<lparr>user = JStr user_input, assistant = answer, timestamp = stamp\<rparr>]\<rparr>,
             we))"
proof (intro conjI impI)
  assume h: "\<not> contains ''TOOL:'' (upper user_input)
      \<and> config sess = \<lparr>cfg_endpoint = Inr ep, cfg_temperature = Inr temp,
                       cfg_max_tokens = Inr mt, cfg_timeout = Inr t\<rparr>
      \<and> http_post os ep
           \<lparr>model = ''gpt-3.5-turbo'',
            messages = build_messages (context_lines sess) (conversation_history sess) user_input,
            temperature = temp, max_tokens = mt\<rparr> t w = (outcome, wa)
      \<and> (case outcome of
            Inl e \<Rightarrow> exn_class e = RequestException
          | Inr resp \<Rightarrow>
              status_code resp \<noteq> 200
              \<or> (\<exists>kvs. json_body resp = Inr (JObj kvs)
                    \<and> (map_of kvs ''choices'' = None \<or> map_of kvs ''choices'' = Some (JArr []))))"
  then obtain r wb where "send_to_model os (config sess)
        (build_messages (context_lines sess) (conversation_history sess) user_input) w = (r, wb)"
    and "case r of Inl e \<Rightarrow> True | Inr reply \<Rightarrow> \<not> truthy reply"
    using send_fails [of "config sess" ep temp mt t os
        "build_messages (context_lines sess) (conversation_history sess) user_input" w outcome wa]
    by auto
  then show "fst (snd (process_conversation os sess user_input w)) = sess"
    using h process_without_reply [of user_input os sess w r wb] by auto
next
  assume "fst (snd (process_conversation os sess user_input w)) \<noteq> sess"
  then show "\<exists>reply wb ts.
           send_to_model os (config sess)
             (build_messages (context_lines sess) (conversation_history sess) user_input) w
             = (Inr reply, wb)
           \<and> truthy reply
           \<and> fst (snd (process_conversation os sess user_input w)) =
               sess\<lparr>conversation_history :=
                      conversation_history sess
                      @ [\<lparr>user = JStr user_input, assistant = reply, timestamp = ts\<rparr>]\<rparr>"
    by (rule process_changes_only_with_reply)
next
  assume "\<not> contains ''TOOL:'' (upper user_input)
      \<and> send_to_model os (config sess)
           (build_messages (context_lines sess) (conversation_history sess) user_input) w
           = (Inr answer, wc)
      \<and> truthy answer
      \<and> display_response os answer wc = (Inr (), wd)
      \<and> now_iso os wd = (stamp, we)"
  then show "process_conversation os sess user_input w =
            (None,
             sess\<lparr>conversation_history :=
                    conversation_history sess
                    @ [\<lparr>user = JStr user_input, assistant = answer, timestamp = stamp\<rparr>]\<rparr>,
             we)"
    by (simp add: process_conversation_def)
qed

theorem failed_round_trip_keeps_history_witness:
  "fst (snd (process_conversation sample_os sample_session ''hello'' [])) = sample_session
   \<and> process_conversation sample_os_up sample_session ''hello'' [] =
       (None,
        sample_session\<lparr>conversation_history :=
          conversation_history sample_session
          @ [\<lparr>user = JStr ''hello'', assistant = JStr ''hi'',
              timestamp = ''2024-01-01T00:00:00''\<rparr>]\<rparr>,
        [])"
proof -
  define msgs where "msgs = build_messages (context_lines sample_session)
      (conversation_history sample_session) ''hello''"
  have gate: "\<not> contains ''TOOL:'' (upper ''hello'')"
    by (simp add: upper_def upper_char_def)
  have cfg: "config sample_session =
      \<lparr>cfg_endpoint = Inr ''http://localhost:11434/v1/chat/completions'',
       cfg_temperature = Inr ''0.7'', cfg_max_tokens = Inr 2048, cfg_timeout = Inr 30\<rparr>"
    by (simp add: sample_session_def sample_config_def)
  have post: "http_post sample_os ''http://localhost:11434/v1/chat/completions''
      \<lparr>model = ''gpt-3.5-turbo'', messages = msgs, temperature = ''0.7'', max_tokens = 2048\<rparr> 30 []
      = (Inl (PyExn RequestException ''Connection refused''), [])"
    by (simp add: sample_os_def)
  have fail: "case Inl (PyExn RequestException ''Connection refused'') of
            Inl e \<Rightarrow> exn_class e = RequestException
          | Inr resp \<Rightarrow>
              status_code resp \<noteq> 200
              \<or> (\<exists>kvs. json_body resp = Inr (JObj kvs)
                    \<and> (map_of kvs ''choices'' = None \<or> map_of kvs ''choices'' = Some (JArr [])))"
    by simp
  have 1: "fst (snd (process_conversation sample_os sample_session ''hello'' [])) = sample_session"
    by (rule failed_round_trip_keeps_history [where os = sample_os and sess = sample_session
          and user_input = "''hello''" and w = "[]" and t = 30 and mt = 2048
          and temp = "''0.7''" and ep = "''http://localhost:11434/v1/chat/completions''"
          and outcome = "Inl (PyExn RequestException ''Connection refused'')" and wa = "[]",
          THEN conjunct1, THEN mp])
      (intro conjI gate cfg post [unfolded msgs_def] fail)
  have send: "send_to_model sample_os_up (config sample_session) msgs [] = (Inr (JStr ''hi''), [])"
    unfolding cfg
    by (simp add: send_to_model_def and_then_def on_request_exception_def sample_os_up_def
        sample_os_def sample_reply_def read_reply_def py_in_def getitem_def getitem0_def truthy_def)
  have t: "truthy (JStr ''hi'')" by (simp add: truthy_def)
  have d: "display_response sample_os_up (JStr ''hi'') [] = (Inr (), [])"
    by (simp add: display_response_def and_then_def py_in_def sample_os_up_def sample_os_def)
  have n: "now_iso sample_os_up [] = (''2024-01-01T00:00:00'', [])"
    by (simp add: sample_os_up_def sample_os_def)
  have 2: "process_conversation sample_os_up sample_session ''hello'' [] =
       (None,
        sample_session\<lparr>conversation_history :=
          conversation_history sample_session
          @ [\<lparr>user = JStr ''hello'', assistant = JStr ''hi'',
              timestamp = ''2024-01-01T00:00:00''\<rparr>]\<rparr>,
        [])"
    by (rule failed_round_trip_keeps_history [where os = sample_os_up and sess = sample_session
          and user_input = "''hello''" and w = "[]" and answer = "JStr ''hi''" and wc = "[]"
          and wd = "[]" and we = "[]" and stamp = "''2024-01-01T00:00:00''",
          THEN conjunct2, THEN conjunct2, THEN mp])
      (intro conjI gate send [unfolded msgs_def] t d n)
  show ?thesis by (intro conjI 1 2)
qed

section \<open>Code analyzer: traversal order and report\<close>

lemma walk_queue_front:
  "walk_queue (xs @ ys) = xs @ walk_queue (ys @ concat (map children xs))"
proof (induction xs arbitrary: ys)
  case Nil
  then show ?case by simp
next
  case (Cons x xs)
  have "walk_queue ((x # xs) @ ys) = x # walk_queue (xs @ (ys @ children x))" by simp
  also have "\<dots> = x # xs @ walk_queue ((ys @ children x) @ concat (map children xs))"
    by (simp only: Cons.IH)
  finally show ?case by simp
qed

lemma walk_root_first:
  "walk tree = tree # children tree @ walk_queue (concat (map children (children tree)))"
proof -
  have "walk tree = tree # walk_queue (children tree)" by (simp add: walk_def)
  also have "walk_queue (children tree) = walk_queue (children tree @ [])" by simp
  also have "\<dots> = children tree @ walk_queue ([] @ concat (map children (children tree)))"
    by (rule walk_queue_front)
  finally show ?thesis by simp
qed

lemma preorder_unfold: "preorder n = n # concat (map preorder (children n))"
  by (cases n) simp

lemma mset_walk_queue: "mset (walk_queue q) = mset (concat (map preorder q))"
proof (induction q rule: walk_queue.induct)
  case 1
  then show ?case by simp
next
  case (2 n todo)
  have "mset (concat (map preorder (n # todo))) =
      {#n#} + mset (concat (map preorder (children n))) + mset (concat (map preorder todo))"
    using preorder_unfold [of n] by simp
  moreover have "mset (walk_queue (n # todo)) =
      {#n#} + mset (concat (map preorder todo)) + mset (concat (map preorder (children n)))"
    using "2.IH" by simp
  ultimately show ?case by simp
qed

lemma mset_walk: "mset (walk tree) = mset (preorder tree)"
  using mset_walk_queue [of "[tree]"] by (simp add: walk_def)

lemma visit_names:
  "visit acc n =
     \<lparr>function_names = function_names acc @ function_of n,
      class_names = class_names acc @ class_of n,
      import_names = import_names acc @ import_of n\<rparr>"
  by (cases "kind n") (simp_all add: visit_def function_of_def class_of_def import_of_def)

lemma foldl_visit:
  "foldl visit acc nodes =
     \<lparr>function_names = function_names acc @ concat (map function_of nodes),
      class_names = class_names acc @ concat (map class_of nodes),
      import_names = import_names acc @ concat (map import_of nodes)\<rparr>"
proof (induction nodes arbitrary: acc)
  case Nil
  then show ?case by simp
next
  case (Cons n nodes)
  show ?case unfolding foldl_Cons Cons.IH by (simp add: visit_names)
qed

lemma collect_names_of: "collect tree = names_of (walk tree)"
  by (simp add: collect_def names_of_def foldl_visit)

lemma concat_map_silent:
  "\<forall>x\<in>set xs. f x = [] \<Longrightarrow> concat (map f xs) = []"
  by (induction xs) auto

lemma concat_map_preorder_silent:
  assumes "\<forall>c\<in>set cs. \<forall>d\<in>set (concat (map preorder (children c))). f d = []"
  shows "concat (map f (concat (map preorder cs))) = concat (map f cs)"
  using assms
proof (induction cs)
  case Nil
  then show ?case by simp
next
  case (Cons c cs)
  have "concat (map f (concat (map preorder (children c)))) = []"
    using Cons.prems by (intro concat_map_silent) simp
  then have "concat (map f (preorder c)) = f c"
    using preorder_unfold [of c] by simp
  then show ?case using Cons by simp
qed

lemma top_level_order:
  assumes "\<forall>c\<in>set (children tree). \<forall>d\<in>set (concat (map preorder (children c))). f d = []"
  shows "concat (map f (walk tree)) = concat (map f (preorder tree))"
proof -
  let ?below = "concat (map children (children tree))"
  have "set (walk_queue ?below) = set (concat (map preorder ?below))"
    using mset_walk_queue [of ?below] by (metis set_mset_mset)
  moreover have "\<forall>d\<in>set (concat (map preorder ?below)). f d = []"
    using assms by auto
  ultimately have "concat (map f (walk_queue ?below)) = []"
    by (intro concat_map_silent) simp
  then have "concat (map f (walk tree)) = f tree @ concat (map f (children tree))"
    by (simp add: walk_root_first)
  moreover have "concat (map f (preorder tree)) = f tree @ concat (map f (children tree))"
    using preorder_unfold [of tree] concat_map_preorder_silent [OF assms] by simp
  ultimately show ?thesis by simp
qed

lemma top_level_names:
  assumes "top_level_only tree"
  shows "names_of (walk tree) = names_of (preorder tree)"
proof -
  have s: "\<forall>c\<in>set (children tree). \<forall>d\<in>set (concat (map preorder (children c))). silent d"
    using assms unfolding top_level_only_def list_all_iff by simp
  have "concat (map function_of (walk tree)) = concat (map function_of (preorder tree))"
    using s by (intro top_level_order) (simp add: silent_def)
  moreover have "concat (map class_of (walk tree)) = concat (map class_of (preorder tree))"
    using s by (intro top_level_order) (simp add: silent_def)
  moreover have "concat (map import_of (walk tree)) = concat (map import_of (preorder tree))"
    using s by (intro top_level_order) (simp add: silent_def)
  ultimately show ?thesis by (simp add: names_of_def)
qed



text \<open>
  Claim C3, as amended. For a text that parses, the analyzer visits every node of the
  tree once, in the order of \<open>ast.walk\<close>: the root, then the top-level statements, then
  all that lies below them. From the visited nodes it takes, in that order, the name of
  every \<open>FunctionDef\<close> and of every \<open>ClassDef\<close>, the names of every \<open>Import\<close> and
  \<open>from\<close> followed by the module of every \<open>ImportFrom\<close>. When every definition and
  import is a top-level statement, this is the document order. The report counts the
  whitespace-separated tokens of the text as lines of code and shows the first five
  imports. For a text the parser rejects with a \<open>SyntaxError\<close>, the result is the
  diagnostic after \<open>Syntax Error:\<close> and no names. The three-line example yields
  \<open>f\<close>, \<open>C\<close> and \<open>os\<close>.
\<close>

theorem analyze_code_collects_names:
  "(ast_parse os code = Inr tree \<longrightarrow>
      analyze_code_content os code = Inr (report code (names_of (walk tree))))
   \<and> collect tree = names_of (walk tree)
   \<and> walk tree = tree # children tree @ walk_queue (concat (map children (children tree)))
   \<and> mset (walk tree) = mset (preorder tree)
   \<and> (top_level_only tree \<longrightarrow> collect tree = names_of (preorder tree))
   \<and> report code ns =
       join ''\<newline>''
         ([''Lines of code: '' @ str_nat (length (split code))]
          @ (if function_names ns = [] then [] else [''Functions: '' @ join '', '' (function_names ns)])
          @ (if class_names ns = [] then [] else [''Classes: '' @ join '', '' (class_names ns)])
          @ (if import_names ns = [] then []
             else [''Imports: '' @ join '', '' (take 5 (import_names ns))]))
   \<and> (ast_parse os code = Inl (PyExn SyntaxError diagnostic) \<longrightarrow>
        analyze_code_content os code = Inr (''Syntax Error: '' @ diagnostic))
   \<and> collect three_lines_tree =
       \<lparr>function_names = [''f''], class_names = [''C''], import_names = [''os'']\<rparr>"
proof (intro conjI impI)
  assume "ast_parse os code = Inr tree"
  then show "analyze_code_content os code = Inr (report code (names_of (walk tree)))"
    by (simp add: analyze_code_content_def collect_names_of)
next
  show "collect tree = names_of (walk tree)" by (rule collect_names_of)
next
  show "walk tree = tree # children tree @ walk_queue (concat (map children (children tree)))"
    by (rule walk_root_first)
next
  show "mset (walk tree) = mset (preorder tree)" by (rule mset_walk)
next
  assume "top_level_only tree"
  then show "collect tree = names_of (preorder tree)"
    by (simp add: collect_names_of top_level_names)
next
  show "report code ns =
       join ''\<newline>''
         ([''Lines of code: '' @ str_nat (length (split code))]
          @ (if function_names ns = [] then [] else [''Functions: '' @ join '', '' (function_names ns)])
          @ (if class_names ns = [] then [] else [''Classes: '' @ join '', '' (class_names ns)])
          @ (if import_names ns = [] then []
             else [''Imports: '' @ join '', '' (take 5 (import_names ns))]))"
    unfolding report_def by (rule arg_cong [where f = "join ''\<newline>''"]) simp
next
  assume "ast_parse os code = Inl (PyExn SyntaxError diagnostic)"
  then show "analyze_code_content os code = Inr (''Syntax Error: '' @ diagnostic)"
    by (simp add: analyze_code_content_def)
next
  have "top_level_only three_lines_tree"
    by (simp add: top_level_only_def three_lines_tree_def silent_def function_of_def
        class_of_def import_of_def)
  then have "collect three_lines_tree = names_of (preorder three_lines_tree)"
    by (simp add: collect_names_of top_level_names)
  then show "collect three_lines_tree =
       \<lparr>function_names = [''f''], class_names = [''C''], import_names = [''os'']\<rparr>"
    by (simp add: three_lines_tree_def names_of_def function_of_def class_of_def import_of_def)
qed


lemmas analyzer_eval = collect_def walk_def visit_def names_of_def function_of_def class_of_def
  import_of_def str_module_def report_def split_def is_space_def

theorem analyze_code_collects_names_witness:
  "analyze_code_content sample_os three_lines =
     Inr ''Lines of code: 8\<newline>Functions: f\<newline>Classes: C\<newline>Imports: os''
   \<and> collect three_lines_tree = names_of (preorder three_lines_tree)
   \<and> analyze_code_content sample_os ''def f(:'' =
       Inr (''Syntax Error: '' @ ''invalid syntax (<unknown>, line 1)'')"
proof -
  have p1: "ast_parse sample_os three_lines = Inr three_lines_tree"
    by (simp add: sample_os_def sample_parse_def)
  have "analyze_code_content sample_os three_lines =
      Inr (report three_lines (names_of (walk three_lines_tree)))"
    by (rule analyze_code_collects_names [where os = sample_os and code = three_lines
          and tree = three_lines_tree, THEN conjunct1, THEN mp, OF p1])
  moreover have "report three_lines (names_of (walk three_lines_tree)) =
      ''Lines of code: 8\<newline>Functions: f\<newline>Classes: C\<newline>Imports: os''"
    by (simp add: analyzer_eval three_lines_def three_lines_tree_def)
  ultimately have 1: "analyze_code_content sample_os three_lines =
     Inr ''Lines of code: 8\<newline>Functions: f\<newline>Classes: C\<newline>Imports: os''"
    by simp
  have t: "top_level_only three_lines_tree"
    by (simp add: top_level_only_def three_lines_tree_def silent_def function_of_def
        class_of_def import_of_def)
  have 2: "collect three_lines_tree = names_of (preorder three_lines_tree)"
    by (rule analyze_code_collects_names [where tree = three_lines_tree,
          THEN conjunct2, THEN conjunct2, THEN conjunct2, THEN conjunct2, THEN conjunct1,
          THEN mp, OF t])
  have p2: "ast_parse sample_os ''def f(:'' = Inl (PyExn SyntaxError ''invalid syntax (<unknown>, line 1)'')"
    by (simp add: sample_os_def sample_parse_def three_lines_def nested_defs_def)
  have 3: "analyze_code_content sample_os ''def f(:'' =
       Inr (''Syntax Error: '' @ ''invalid syntax (<unknown>, line 1)'')"
    by (rule analyze_code_collects_names [where os = sample_os and code = "''def f(:''"
          and diagnostic = "''invalid syntax (<unknown>, line 1)''",
          THEN conjunct2, THEN conjunct2, THEN conjunct2, THEN conjunct2, THEN conjunct2,
          THEN conjunct2, THEN conjunct1, THEN mp, OF p2])
  show ?thesis by (intro conjI 1 2 3)
qed

text \<open>
  The claim as first stated fails for a definition nested in another: in
  \<open>nested_defs\<close> the function \<open>b\<close> is written before \<open>c\<close> but collected after it.
\<close>

theorem nested_definition_counterexample:
  "ast_parse sample_os nested_defs = Inr nested_defs_tree
   \<and> function_names (collect nested_defs_tree) = [''a'', ''c'', ''b'']
   \<and> function_names (names_of (preorder nested_defs_tree)) = [''a'', ''b'', ''c'']
   \<and> analyze_code_content sample_os nested_defs =
       Inr ''Lines of code: 8\<newline>Functions: a, c, b''"
proof -
  have 1: "ast_parse sample_os nested_defs = Inr nested_defs_tree"
    by (simp add: sample_os_def sample_parse_def three_lines_def nested_defs_def)
  have 2: "function_names (collect nested_defs_tree) = [''a'', ''c'', ''b'']"
    by (simp add: analyzer_eval nested_defs_tree_def)
  have 3: "function_names (names_of (preorder nested_defs_tree)) = [''a'', ''b'', ''c'']"
    by (simp add: analyzer_eval nested_defs_tree_def)
  have c: "collect nested_defs_tree =
      \<lparr>function_names = [''a'', ''c'', ''b''], class_names = [], import_names = []\<rparr>"
    by (simp add: analyzer_eval nested_defs_tree_def)
  have 4: "analyze_code_content sample_os nested_defs =
       Inr ''Lines of code: 8\<newline>Functions: a, c, b''"
    unfolding analyze_code_content_def 1
    by (simp add: c report_def split_def is_space_def nested_defs_def)
  show ?thesis by (intro conjI 1 2 3 4)
qed

end
